theory Spec2Isabelle
  imports Main "HOL-Library.Signed_Division" "HOL-Library.Multiset" "HOL-Library.Word"
begin

section \<open>The Android Camera2 capture filter (android-camera2-capture.cpp)\<close>

text \<open>
  The filter keeps its whole state in one \<open>AndroidCamera2Context\<close>. Every function of the
  source that works on it is a function on a record of the same fields here. What a
  function does beyond changing the context (logging, calls into the NDK, freeing a
  message block, queueing a frame, notifying the host) is returned as a list of events, in
  the order the source performs them. What the platform answers (status codes, the
  pointers it writes through out-parameters) is an argument of the function.

  A pointer field is an \<open>option\<close>: \<open>None\<close> is \<open>nullptr\<close>. A dereference of a null pointer
  is the fault \<open>NullDeref\<close>.

  Frame-rate bookkeeping (\<open>fps\<close>, \<open>fpsControl\<close>, \<open>averageFps\<close>, \<open>fps_context\<close>), the two
  mutexes and the callback tables hold no state that the functions below branch on; they
  are left out of the record. The one verdict of the frame-rate controller that the image
  callback reads is an argument of the callback.
\<close>

subsection \<open>Data\<close>

type_synonym handle = "nat option"

type_synonym mblk = nat

datatype fault = NullDeref

record MSVideoSize =
  width :: int
  height :: int

record AndroidCamera2Device =
  camId :: string
  orientation :: int
  back_facing :: bool

record MSTicker =
  time :: "64 word"

record MSFilter =
  ticker :: "MSTicker option"

record AndroidCamera2Context =
  filter_p :: "MSFilter option"
  capturing :: bool
  device :: "AndroidCamera2Device option"
  rotation :: int
  captureSize :: MSVideoSize
  captureFormat :: int
  frame :: "mblk option"
  cameraDevice :: handle
  captureSession :: handle
  captureSessionOutputContainer :: handle
  captureWindow :: handle
  captureRequest :: handle
  cameraCaptureOutputTarget :: handle
  sessionCaptureOutput :: handle
  imageReader :: handle

text \<open>32-bit \<open>int\<close> arithmetic of the target: a result outside the range wraps around.\<close>

definition int32 :: "int \<Rightarrow> int" where
  "int32 x = signed_take_bit 31 x"

text \<open>The value of the NDK constant \<open>AIMAGE_FORMAT_YUV_420_888\<close> (media/NdkImage.h).\<close>

definition AIMAGE_FORMAT_YUV_420_888 :: int where
  "AIMAGE_FORMAT_YUV_420_888 = 35"

subsection \<open>Events\<close>

datatype log_level = Message | Warning | Error

datatype ndk =
    ACameraManager_create
  | ACameraManager_openCamera
  | ACameraManager_delete
  | ACameraDevice_close
  | ACaptureSessionOutputContainer_create
  | AImageReader_new
  | AImageReader_setImageListener
  | AImageReader_getWindow
  | ANativeWindow_acquire
  | ACameraOutputTarget_create
  | ACameraDevice_createCaptureRequest
  | ACaptureRequest_addTarget
  | ACaptureSessionOutput_create
  | ACaptureSessionOutputContainer_add
  | ACameraCaptureSession_setRepeatingRequest
  | ACameraCaptureSession_stopRepeating
  | ACameraCaptureSession_close
  | ACameraOutputTarget_free
  | ACaptureRequest_free
  | ACaptureSessionOutputContainer_remove
  | ACaptureSessionOutput_free
  | ANativeWindow_release
  | AImageReader_delete
  | ACaptureSessionOutputContainer_free
  | AImage_delete
  | ACameraManager_getCameraCharacteristics
  | ACameraMetadata_getConstEntry
  | ACameraMetadata_free
  | ACameraManager_getCameraIdList
  | ACameraManager_deleteCameraIdList

datatype event =
    Log log_level string
  | Call ndk "handle list"
  | FreeMsg mblk
  | QueuePut mblk "32 word"
  | Notify MSVideoSize
  | Convert bool int int int

text \<open>
  \<open>Call f hs\<close> is a call of the NDK function \<open>f\<close> with the handles \<open>hs\<close> among its
  arguments. \<open>FreeMsg m\<close> is \<open>freemsg(m)\<close>. \<open>QueuePut m ts\<close> is \<open>ms_queue_put\<close> of the block
  \<open>m\<close> after \<open>mblk_set_timestamp_info(m, ts)\<close>, whose second parameter is a \<open>uint32_t\<close>. \<open>Notify s\<close> is \<open>ms_filter_notify\<close> of
  \<open>MS_CAMERA_PREVIEW_SIZE_CHANGED\<close> with the size \<open>s\<close>. \<open>Convert planar orientation w h\<close>
  is the call of the pixel converter (\<open>copy_yuv_with_rotation\<close> when \<open>planar\<close>, the
  bi-planar one otherwise) with that orientation, width and height.
\<close>

subsection \<open>The constructor\<close>

definition ctx_init :: "MSFilter option \<Rightarrow> AndroidCamera2Context" where
  "ctx_init f =
     \<lparr> filter_p = f, capturing = False, device = None, rotation = 0,
       captureSize = \<lparr> width = 0, height = 0 \<rparr>,
       captureFormat = AIMAGE_FORMAT_YUV_420_888,
       frame = None,
       cameraDevice = None, captureSession = None, captureSessionOutputContainer = None,
       captureWindow = None, captureRequest = None, cameraCaptureOutputTarget = None,
       sessionCaptureOutput = None, imageReader = None \<rparr>"

subsection \<open>Opening and closing the camera\<close>

text \<open>
  What the platform answers during \<open>android_camera2_capture_start\<close>. A status is \<open>True\<close>
  for \<open>ACAMERA_OK\<close> / \<open>AMEDIA_OK\<close>; a handle is what the call leaves in its out-parameter.
\<close>

record start_platform =
  openCamera :: "bool \<times> handle"
  container_create :: handle
  imageReader_new :: "bool \<times> handle"
  getWindow :: "bool \<times> handle"
  outputTarget_create :: handle
  createCaptureRequest :: "bool \<times> handle"
  sessionOutput_create :: handle

definition android_camera2_capture_open_camera ::
  "start_platform \<Rightarrow> AndroidCamera2Context \<Rightarrow> AndroidCamera2Context \<times> event list" where
  "android_camera2_capture_open_camera p d =
     (case device d of
        None \<Rightarrow>
          (d, [Log Message ''Opening camera'',
               Log Error ''Can't open camera, no device selected''])
      | Some dev \<Rightarrow>
          (if \<not> fst (openCamera p) then
             (d, [Log Message ''Opening camera'',
                  Call ACameraManager_create [],
                  Log Message ''Opening camera %s'',
                  Call ACameraManager_openCamera [],
                  Log Error ''Failed to open camera %s''])
           else
             (d\<lparr>cameraDevice := snd (openCamera p)\<rparr>,
              [Log Message ''Opening camera'',
               Call ACameraManager_create [],
               Log Message ''Opening camera %s'',
               Call ACameraManager_openCamera [],
               Call ACameraManager_delete []])))"

text \<open>\<open>close_ok\<close> is whether \<open>ACameraDevice_close\<close> answers \<open>ACAMERA_OK\<close>.\<close>

definition android_camera2_capture_close_camera ::
  "bool \<Rightarrow> AndroidCamera2Context \<Rightarrow> fault + (AndroidCamera2Context \<times> event list)" where
  "android_camera2_capture_close_camera close_ok d =
     (if cameraDevice d \<noteq> None then
        (case device d of
           None \<Rightarrow> Inl NullDeref
         | Some dev \<Rightarrow>
             Inr (d\<lparr>cameraDevice := None\<rparr>,
                  [Log Message ''Closing camera'',
                   Call ACameraDevice_close [cameraDevice d],
                   if \<not> close_ok then Log Error ''Failed to close camera %s''
                   else Log Message ''Camera closed %s'']))
      else Inr (d, [Log Message ''Closing camera'']))"

subsection \<open>Starting and stopping the capture\<close>

definition android_camera2_capture_start ::
  "start_platform \<Rightarrow> AndroidCamera2Context \<Rightarrow> AndroidCamera2Context \<times> event list" where
  "android_camera2_capture_start p d =
     (if width (captureSize d) = 0 \<or> height (captureSize d) = 0 then
        (d, [Log Message ''Starting capture'',
             Log Warning ''Filter hasn't been fully configured yet, don't start''])
      else if capturing d then
        (d, [Log Message ''Starting capture'',
             Log Warning ''Capture was already started, ignoring...''])
      else
        let (d1, e1) = (if cameraDevice d = None
                        then android_camera2_capture_open_camera p d else (d, []));
            d2 = d1\<lparr>captureSessionOutputContainer := container_create p\<rparr>;
            e2 = [Log Message ''Starting capture''] @ e1 @
                 [Call ACaptureSessionOutputContainer_create [],
                  Call AImageReader_new []];
            d3 = d2\<lparr>imageReader := snd (imageReader_new p)\<rparr>
        in
        if \<not> fst (imageReader_new p) then
          (d3, e2 @ [Log Error ''Failed to create image reader''])
        else
          let e3 = e2 @ [Call AImageReader_setImageListener [imageReader d3],
                         Log Message ''Image reader created'',
                         Call AImageReader_getWindow [imageReader d3]];
              d4 = d3\<lparr>captureWindow := snd (getWindow p)\<rparr>
          in
          if \<not> fst (getWindow p) then
            (d4, e3 @ [Log Error ''Capture window couldn't be acquired''])
          else
            let d5 = d4\<lparr>cameraCaptureOutputTarget := outputTarget_create p\<rparr>;
                d6 = d5\<lparr>captureRequest := snd (createCaptureRequest p)\<rparr>;
                d7 = d6\<lparr>sessionCaptureOutput := sessionOutput_create p\<rparr>;
                e4 = e3 @
                  [Call ANativeWindow_acquire [captureWindow d4],
                   Log Message ''Capture window acquired'',
                   Call ACameraOutputTarget_create [captureWindow d4],
                   Call ACameraDevice_createCaptureRequest [cameraDevice d5]] @
                  (if \<not> fst (createCaptureRequest p)
                   then [Log Error ''Failed to create capture request''] else []) @
                  [Call ACaptureRequest_addTarget
                     [captureRequest d6, cameraCaptureOutputTarget d6],
                   Call ACaptureSessionOutput_create [captureWindow d6],
                   Call ACaptureSessionOutputContainer_add
                     [captureSessionOutputContainer d7, sessionCaptureOutput d7],
                   Call ACameraCaptureSession_setRepeatingRequest
                     [captureSession d7, captureRequest d7]]
            in (d7\<lparr>capturing := True\<rparr>, e4 @ [Log Message ''Capture started'']))"

text \<open>
  The release steps of \<open>android_camera2_capture_stop\<close>, one function per guarded block of
  the source, in the source's order.
\<close>

definition stop_session :: "AndroidCamera2Context \<Rightarrow> AndroidCamera2Context \<times> event list" where
  "stop_session d =
     (if captureSession d \<noteq> None then
        (d\<lparr>captureSession := None\<rparr>,
         [Call ACameraCaptureSession_stopRepeating [captureSession d],
          Call ACameraCaptureSession_close [captureSession d]])
      else (d, []))"

definition stop_target :: "AndroidCamera2Context \<Rightarrow> AndroidCamera2Context \<times> event list" where
  "stop_target d =
     (if cameraCaptureOutputTarget d \<noteq> None then
        (d\<lparr>cameraCaptureOutputTarget := None\<rparr>,
         [Call ACameraOutputTarget_free [cameraCaptureOutputTarget d]])
      else (d, []))"

definition stop_request :: "AndroidCamera2Context \<Rightarrow> AndroidCamera2Context \<times> event list" where
  "stop_request d =
     (if captureRequest d \<noteq> None then
        (d\<lparr>captureRequest := None\<rparr>, [Call ACaptureRequest_free [captureRequest d]])
      else (d, []))"

definition stop_container_remove ::
  "AndroidCamera2Context \<Rightarrow> AndroidCamera2Context \<times> event list" where
  "stop_container_remove d =
     (if captureSessionOutputContainer d \<noteq> None then
        (d, [Call ACaptureSessionOutputContainer_remove
               [captureSessionOutputContainer d, sessionCaptureOutput d]])
      else (d, []))"

definition stop_session_output ::
  "AndroidCamera2Context \<Rightarrow> AndroidCamera2Context \<times> event list" where
  "stop_session_output d =
     (if sessionCaptureOutput d \<noteq> None then
        (d\<lparr>sessionCaptureOutput := None\<rparr>,
         [Call ACaptureSessionOutput_free [sessionCaptureOutput d]])
      else (d, []))"

definition stop_window :: "AndroidCamera2Context \<Rightarrow> AndroidCamera2Context \<times> event list" where
  "stop_window d =
     (if captureWindow d \<noteq> None then
        (d\<lparr>captureWindow := None\<rparr>, [Call ANativeWindow_release [captureWindow d]])
      else (d, []))"

definition stop_reader :: "AndroidCamera2Context \<Rightarrow> AndroidCamera2Context \<times> event list" where
  "stop_reader d =
     (if imageReader d \<noteq> None then
        (d\<lparr>imageReader := None\<rparr>, [Call AImageReader_delete [imageReader d]])
      else (d, []))"

definition stop_container_free ::
  "AndroidCamera2Context \<Rightarrow> AndroidCamera2Context \<times> event list" where
  "stop_container_free d =
     (if captureSessionOutputContainer d \<noteq> None then
        (d\<lparr>captureSessionOutputContainer := None\<rparr>,
         [Call ACaptureSessionOutputContainer_free [captureSessionOutputContainer d]])
      else (d, []))"

text \<open>Running one step after the steps before it, keeping the events in order.\<close>

definition and_then ::
  "AndroidCamera2Context \<times> event list \<Rightarrow>
   (AndroidCamera2Context \<Rightarrow> AndroidCamera2Context \<times> event list) \<Rightarrow>
   AndroidCamera2Context \<times> event list" where
  "and_then r f = (let (d', e') = f (fst r) in (d', snd r @ e'))"

definition android_camera2_capture_stop ::
  "bool \<Rightarrow> AndroidCamera2Context \<Rightarrow> fault + (AndroidCamera2Context \<times> event list)" where
  "android_camera2_capture_stop close_ok d =
     (if \<not> capturing d then
        Inr (d, [Log Message ''Stopping capture'',
                 Log Warning ''Capture was already stopped, ignoring...''])
      else
        let r = and_then (and_then (and_then (and_then (and_then (and_then (and_then (and_then
                  (d\<lparr>capturing := False\<rparr>, [Log Message ''Stopping capture''])
                  stop_session) stop_target) stop_request) stop_container_remove)
                  stop_session_output) stop_window) stop_reader) stop_container_free
        in
        (case android_camera2_capture_close_camera close_ok (fst r) of
           Inl e \<Rightarrow> Inl e
         | Inr (d', e') \<Rightarrow> Inr (d', snd r @ e' @ [Log Message ''Capture stopped''])))"

subsection \<open>Orientation and frame conversion\<close>

definition android_camera2_capture_get_orientation ::
  "AndroidCamera2Context \<Rightarrow> fault + int" where
  "android_camera2_capture_get_orientation d =
     (case device d of
        None \<Rightarrow> Inl NullDeref
      | Some dev \<Rightarrow>
          let o1 = (if back_facing dev then int32 (orientation dev - rotation d)
                    else int32 (orientation dev + rotation d));
              o2 = (if o1 < 0 then int32 (o1 + 360) else o1)
          in Inr (o2 smod 360))"

text \<open>
  Of an \<open>AImage\<close> the converter reads the size and the pixel stride of the chroma planes.
  \<open>conv\<close> is the block the pixel converter returns (\<open>None\<close> when it returns
  \<open>nullptr\<close>).
\<close>

record AImage =
  img_width :: int
  img_height :: int
  uvPixelStride :: int

definition android_camera2_capture_image_to_mblkt ::
  "mblk option \<Rightarrow> AndroidCamera2Context \<Rightarrow> AImage \<Rightarrow> fault + (mblk option \<times> event list)" where
  "android_camera2_capture_image_to_mblkt conv d img =
     (case android_camera2_capture_get_orientation d of
        Inl e \<Rightarrow> Inl e
      | Inr ori \<Rightarrow>
          let (w, h) = (if ori smod 180 \<noteq> 0
                        then (img_height img, img_width img)
                        else (img_width img, img_height img))
          in Inr (conv,
                  [Log Message ''Image %p size %d/%d'',
                   Convert (uvPixelStride img = 1) ori w h]))"

definition android_camera2_capture_get_vsize ::
  "AndroidCamera2Context \<Rightarrow> fault + MSVideoSize" where
  "android_camera2_capture_get_vsize d =
     (case android_camera2_capture_get_orientation d of
        Inl e \<Rightarrow> Inl e
      | Inr ori \<Rightarrow>
          Inr (if ori smod 180 = 0
               then \<lparr> width = width (captureSize d), height = height (captureSize d) \<rparr>
               else \<lparr> width = height (captureSize d), height = width (captureSize d) \<rparr>))"

definition android_camera2_capture_set_device_rotation ::
  "int \<Rightarrow> AndroidCamera2Context \<Rightarrow> AndroidCamera2Context \<times> event list" where
  "android_camera2_capture_set_device_rotation arg d =
     (d\<lparr>rotation := arg\<rparr>, [Log Message ''Device rotation is %i''])"

subsection \<open>The frame slot: the image callback and the process hook\<close>

text \<open>
  What the platform and the libraries answer during one image callback: the format the
  reader reports, the status of \<open>AImageReader_acquireNextImage\<close> with the image, the
  verdict of \<open>ms_video_capture_new_frame\<close>, and the block the converter returns.
\<close>

record image_platform =
  reader_format :: int
  acquire_ok :: bool
  next_image :: AImage
  new_frame :: bool
  converted :: "mblk option"

text \<open>Lines 209 to 212: the store into the slot, under the mutex.\<close>

definition frame_store ::
  "mblk \<Rightarrow> AndroidCamera2Context \<Rightarrow> AndroidCamera2Context \<times> event list" where
  "frame_store m d =
     (d\<lparr>frame := Some m\<rparr>, (case frame d of Some old \<Rightarrow> [FreeMsg old] | None \<Rightarrow> []))"

text \<open>
  The guard of line 200, \<open>d->filter == nullptr && d->filter->ticker == nullptr\<close>, with the
  short-circuit evaluation of \<open>&&\<close>: the right operand is evaluated only when the left
  one is true, and it reads through \<open>d->filter\<close>.
\<close>

definition filter_destroyed_guard :: "AndroidCamera2Context \<Rightarrow> fault + bool" where
  "filter_destroyed_guard d =
     (if filter_p d = None then
        (case filter_p d of
           None \<Rightarrow> Inl NullDeref
         | Some f \<Rightarrow> Inr (ticker f = None))
      else Inr False)"

definition android_camera2_capture_on_image_available ::
  "image_platform \<Rightarrow> AndroidCamera2Context \<Rightarrow> fault + (AndroidCamera2Context \<times> event list)" where
  "android_camera2_capture_on_image_available p d =
     (if reader_format p = captureFormat d then
        if acquire_ok p then
          if capturing d then
            (case filter_p d of
               None \<Rightarrow> Inl NullDeref
             | Some f \<Rightarrow>
                 (case filter_destroyed_guard d of
                    Inl e \<Rightarrow> Inl e
                  | Inr True \<Rightarrow>
                      Inr (d, [Log Error ''Filter destroyed, we shouldn't be here !''])
                  | Inr False \<Rightarrow>
                      (case ticker f of
                         None \<Rightarrow> Inl NullDeref
                       | Some t \<Rightarrow>
                           if new_frame p then
                             (case android_camera2_capture_image_to_mblkt (converted p) d (next_image p) of
                                Inl e \<Rightarrow> Inl e
                              | Inr (None, e1) \<Rightarrow> Inr (d, e1 @ [Call AImage_delete []])
                              | Inr (Some m, e1) \<Rightarrow>
                                  let (d', e2) = frame_store m d
                                  in Inr (d', e1 @ e2 @ [Call AImage_delete []]))
                           else Inr (d, [Call AImage_delete []]))))
          else Inr (d, [Call AImage_delete []])
        else Inr (d, [Log Error ''Couldn't acquire image''])
      else Inr (d, [Log Error ''Aquired image is in wrong format %d, expected %d'']))"

text \<open>
  \<open>f->ticker->time\<close> is a \<open>uint64_t\<close>: the product with 90 is computed in 64 bits, and
  the call of \<open>mblk_set_timestamp_info\<close> keeps its low 32 bits.
\<close>

definition android_camera2_capture_process ::
  "MSFilter \<Rightarrow> AndroidCamera2Context \<Rightarrow> fault + (AndroidCamera2Context \<times> event list)" where
  "android_camera2_capture_process f d =
     (case frame d of
        Some m \<Rightarrow>
          (case ticker f of
             None \<Rightarrow> Inl NullDeref
           | Some t \<Rightarrow> Inr (d\<lparr>frame := None\<rparr>, [QueuePut m (ucast (time t * 90))]))
      | None \<Rightarrow> Inr (d, []))"

subsection \<open>The other hooks\<close>

definition android_camera2_capture_preprocess ::
  "start_platform \<Rightarrow> AndroidCamera2Context \<Rightarrow> AndroidCamera2Context \<times> event list" where
  "android_camera2_capture_preprocess p d =
     (if width (captureSize d) \<noteq> 0 \<and> height (captureSize d) \<noteq> 0 \<and> \<not> capturing d then
        (let (d', e) = android_camera2_capture_start p d
         in (d', [Log Message ''Filter preprocess''] @ e))
      else (d, [Log Message ''Filter preprocess'']))"

definition android_camera2_capture_postprocess ::
  "bool \<Rightarrow> AndroidCamera2Context \<Rightarrow> fault + (AndroidCamera2Context \<times> event list)" where
  "android_camera2_capture_postprocess close_ok d =
     (if capturing d then
        (case android_camera2_capture_stop close_ok d of
           Inl e \<Rightarrow> Inl e
         | Inr (d', e) \<Rightarrow> Inr (d', [Log Message ''Filter postprocess''] @ e))
      else Inr (d, [Log Message ''Filter postprocess'']))"

text \<open>
  \<open>android_camera2_capture_create_reader\<close>: the filter is created from its description,
  which runs the constructor, and the device of the webcam is bound to it.
\<close>

definition android_camera2_capture_create_reader ::
  "MSFilter option \<Rightarrow> AndroidCamera2Device \<Rightarrow> AndroidCamera2Context" where
  "android_camera2_capture_create_reader f dev = (ctx_init f)\<lparr>device := Some dev\<rparr>"

subsection \<open>Choosing the capture size\<close>

text \<open>
  The entry \<open>ACAMERA_SCALER_AVAILABLE_STREAM_CONFIGURATIONS\<close> is an array of 32-bit
  integers read four at a time: \<open>data[i + 0]\<close> the format, \<open>data[i + 1]\<close> the width,
  \<open>data[i + 2]\<close> the height, \<open>data[i + 3]\<close> the input flag. One group of four is one
  \<open>stream_configuration\<close>.

  \<open>askedRatio\<close>, \<open>currentSizeRatio\<close> and \<open>backupRatio\<close> are \<open>double\<close>s in the source, each
  converted from a product computed in 32-bit \<open>int\<close>. Every 32-bit integer is a \<open>double\<close>,
  and so is the difference of two of them: the comparison of the source is the comparison
  of the integers.
\<close>

record stream_configuration =
  cfg_format :: int
  cfg_width :: int
  cfg_height :: int
  cfg_input :: int

definition configuration_step ::
  "AndroidCamera2Context \<Rightarrow> MSVideoSize \<times> bool \<Rightarrow> stream_configuration \<Rightarrow> MSVideoSize \<times> bool" where
  "configuration_step d st c =
     (let (backupSize, found) = st in
      if cfg_input c \<noteq> 0 then (backupSize, found)
      else if cfg_format c = captureFormat d then
        let askedRatio = int32 (width (captureSize d) * height (captureSize d));
            currentSizeRatio = int32 (cfg_width c * cfg_height c)
        in
        if cfg_width c = width (captureSize d) \<and> cfg_height c = height (captureSize d)
        then (backupSize, True)
        else
          let backupRatio = int32 (width backupSize * height backupSize) in
          if backupRatio = 0 \<or>
             \<bar>askedRatio - currentSizeRatio\<bar> < \<bar>askedRatio - backupRatio\<bar>
          then (\<lparr> width = cfg_width c, height = cfg_height c \<rparr>, found)
          else (backupSize, found)
      else (backupSize, found))"

definition configuration_log :: "AndroidCamera2Context \<Rightarrow> stream_configuration \<Rightarrow> event list" where
  "configuration_log d c =
     (if cfg_input c = 0 \<and> cfg_format c = captureFormat d
      then [Log Message ''Available size width %d, height %d for requested format %d'']
      else [])"

definition android_camera2_capture_choose_best_configurations ::
  "stream_configuration list \<Rightarrow> AndroidCamera2Context \<Rightarrow>
   fault + (AndroidCamera2Context \<times> event list)" where
  "android_camera2_capture_choose_best_configurations scaler d =
     (case device d of
        None \<Rightarrow> Inl NullDeref
      | Some dev \<Rightarrow>
          let (backupSize, found) =
                foldl (configuration_step d) (\<lparr> width = 0, height = 0 \<rparr>, False) scaler;
              e = [Log Message ''Listing camera %s configurations'',
                   Call ACameraManager_create [],
                   Call ACameraManager_getCameraCharacteristics [],
                   Call ACameraMetadata_getConstEntry []] @
                  concat (map (configuration_log d) scaler)
          in
          if found then
            Inr (d, e @ [Log Message ''Found exact match for our required size of %ix%i''])
          else
            Inr (d\<lparr>captureSize := \<lparr> width = width backupSize, height = height backupSize \<rparr>\<rparr>,
                 e @ [Log Warning ''Couldn't find requested resolution, instead using %ix%i'']))"

definition android_camera2_capture_set_vsize ::
  "MSVideoSize \<Rightarrow> bool \<Rightarrow> stream_configuration list \<Rightarrow> start_platform \<Rightarrow>
   AndroidCamera2Context \<Rightarrow> fault + (int \<times> AndroidCamera2Context \<times> event list)" where
  "android_camera2_capture_set_vsize requestedSize close_ok scaler p d =
     (if width (captureSize d) = width requestedSize \<and>
         height (captureSize d) = height requestedSize
      then Inr (-1, d, [Log Message ''Current preview size is %i/%i, new size will be %i/%i''])
      else
        (case android_camera2_capture_stop close_ok (d\<lparr>captureSize := requestedSize\<rparr>) of
           Inl e \<Rightarrow> Inl e
         | Inr (d2, e2) \<Rightarrow>
             (case android_camera2_capture_choose_best_configurations scaler d2 of
                Inl e \<Rightarrow> Inl e
              | Inr (d3, e3) \<Rightarrow>
                  let (d4, e4) = android_camera2_capture_start p d3
                  in Inr (0, d4,
                          [Log Message ''Current preview size is %i/%i, new size will be %i/%i'']
                          @ e2 @ e3 @ e4 @ [Notify (captureSize d4)]))))"

subsection \<open>Detecting the cameras\<close>

text \<open>
  Of the metadata of a camera the detection reads \<open>ACAMERA_SENSOR_ORIENTATION\<close> (a 32-bit
  integer) and \<open>ACAMERA_LENS_FACING\<close> (a byte). \<open>ACAMERA_LENS_FACING_BACK\<close> is 1 and
  \<open>ACAMERA_LENS_FACING_FRONT\<close> is 0 in NdkCameraMetadataTags.h.
\<close>

record camera_characteristics =
  sensor_orientation :: int
  lens_facing :: nat

definition ACAMERA_LENS_FACING_FRONT :: nat where
  "ACAMERA_LENS_FACING_FRONT = 0"

definition ACAMERA_LENS_FACING_BACK :: nat where
  "ACAMERA_LENS_FACING_BACK = 1"

record MSWebCam =
  id_cam :: string
  name :: string
  data :: AndroidCamera2Device

text \<open>
  \<open>ms_web_cam_manager_prepend_cam\<close> belongs to mediastreamer2 (mswebcam.c): it puts the
  camera at the head of the manager's list of cameras.
\<close>

definition ms_web_cam_manager_prepend_cam :: "MSWebCam list \<Rightarrow> MSWebCam \<Rightarrow> MSWebCam list" where
  "ms_web_cam_manager_prepend_cam obj cam = cam # obj"

text \<open>
  The state of the loop: the manager's cameras, \<open>front_facing_found\<close>, \<open>back_facing_found\<close>
  and the events so far. One entry of the enumeration is the camera id with its metadata,
  \<open>None\<close> when \<open>ACameraManager_getCameraCharacteristics\<close> fails for it.
\<close>

definition detect_step ::
  "MSWebCam list \<times> bool \<times> bool \<times> event list \<Rightarrow> string \<times> camera_characteristics option \<Rightarrow>
   MSWebCam list \<times> bool \<times> bool \<times> event list" where
  "detect_step st entry =
     (let (obj, front_facing_found, back_facing_found, evs) = st;
          (cid, characteristics) = entry
      in
      case characteristics of
        None \<Rightarrow>
          (obj, front_facing_found, back_facing_found,
           evs @ [Call ACameraManager_getCameraCharacteristics [],
                  Log Error ''Failed to get camera %s characteristics''])
      | Some ch \<Rightarrow>
          let back = (lens_facing ch = ACAMERA_LENS_FACING_BACK);
              facing = (if \<not> back then ''front'' else ''back'');
              dev = \<lparr> camId = cid, orientation = sensor_orientation ch, back_facing = back \<rparr>;
              idstring = take 25 (''Camera2Device'' @ cid @ ''Facing'' @ facing);
              cam = \<lparr> id_cam = idstring, name = idstring, data = dev \<rparr>;
              e = [Call ACameraManager_getCameraCharacteristics [],
                   Call ACameraMetadata_getConstEntry [],
                   Call ACameraMetadata_getConstEntry [],
                   Log Message ''Camera %s is facing %s with angle %d'']
          in
          if (back \<and> \<not> back_facing_found) \<or> (\<not> back \<and> \<not> front_facing_found) then
            (ms_web_cam_manager_prepend_cam obj cam,
             (if back then front_facing_found else True),
             (if back then True else back_facing_found),
             evs @ e @ [Call ACameraMetadata_free []])
          else
            (obj, front_facing_found, back_facing_found,
             evs @ e @
             [Log Warning
                ''A camera with the same direction as already been added, skipping this one'',
              Call ACameraMetadata_free []]))"

text \<open>
  \<open>cameraIdList\<close> is \<open>None\<close> when \<open>ACameraManager_getCameraIdList\<close> fails. The result is
  the manager's list of cameras after the detection, with the events.
\<close>

definition android_camera2_capture_detect ::
  "(string \<times> camera_characteristics option) list option \<Rightarrow> MSWebCam list \<Rightarrow>
   MSWebCam list \<times> event list" where
  "android_camera2_capture_detect cameraIdList obj =
     (case cameraIdList of
        None \<Rightarrow>
          (obj, [Log Message ''Detecting cameras'', Call ACameraManager_create [],
                 Call ACameraManager_getCameraIdList [],
                 Log Error ''Failed to get camera(s) list : %d''])
      | Some ids \<Rightarrow>
          if length ids < 1 then
            (obj, [Log Message ''Detecting cameras'', Call ACameraManager_create [],
                   Call ACameraManager_getCameraIdList [],
                   Log Warning
                     ''No camera detected, check you have granted CAMERA permission !''])
          else
            let (obj', front_facing_found, back_facing_found, evs) =
                  foldl detect_step
                    (obj, False, False,
                     [Log Message ''Detecting cameras'', Call ACameraManager_create [],
                      Call ACameraManager_getCameraIdList []])
                    ids
            in (obj', evs @ [Call ACameraManager_deleteCameraIdList [],
                             Call ACameraManager_delete []]))"

subsection \<open>Sequences of operations on one filter\<close>

text \<open>
  The operations the host and the platform perform on a filter, each with what the
  platform answers during it. \<open>Start\<close> and \<open>Stop\<close> are the two internal functions, which
  the hooks and \<open>SetVSize\<close> call.
\<close>

datatype operation =
    Preprocess start_platform
  | Process MSFilter
  | Postprocess bool
  | SetVSize MSVideoSize bool "stream_configuration list" start_platform
  | SetDeviceRotation int
  | OnImageAvailable image_platform
  | Start start_platform
  | Stop bool

fun step ::
  "operation \<Rightarrow> AndroidCamera2Context \<Rightarrow> fault + (AndroidCamera2Context \<times> event list)" where
  "step (Preprocess p) d = Inr (android_camera2_capture_preprocess p d)"
| "step (Process f) d = android_camera2_capture_process f d"
| "step (Postprocess c) d = android_camera2_capture_postprocess c d"
| "step (SetVSize s c scaler p) d =
     (case android_camera2_capture_set_vsize s c scaler p d of
        Inl e \<Rightarrow> Inl e
      | Inr (r, d', e) \<Rightarrow> Inr (d', e))"
| "step (SetDeviceRotation r) d = Inr (android_camera2_capture_set_device_rotation r d)"
| "step (OnImageAvailable p) d = android_camera2_capture_on_image_available p d"
| "step (Start p) d = Inr (android_camera2_capture_start p d)"
| "step (Stop c) d = android_camera2_capture_stop c d"

fun run ::
  "operation list \<Rightarrow> AndroidCamera2Context \<times> event list \<Rightarrow>
   fault + (AndroidCamera2Context \<times> event list)" where
  "run [] s = Inr s"
| "run (x # xs) s =
     (case step x (fst s) of
        Inl e \<Rightarrow> Inl e
      | Inr (d', e) \<Rightarrow> run xs (d', snd s @ e))"

subsection \<open>Predicates and sample inputs used in the statements\<close>

text \<open>
  An event that touches no capture session: a repeating request is issued with a null
  session handle, and the session is neither stopped nor closed.
\<close>

definition null_session_event :: "event \<Rightarrow> bool" where
  "null_session_event e =
     (case e of
        Call f hs \<Rightarrow>
          (if f = ACameraCaptureSession_setRepeatingRequest then hs \<noteq> [] \<and> hd hs = None
           else f \<noteq> ACameraCaptureSession_stopRepeating \<and> f \<noteq> ACameraCaptureSession_close)
      | _ \<Rightarrow> True)"

definition session_null :: "AndroidCamera2Context \<times> event list \<Rightarrow> bool" where
  "session_null r \<longleftrightarrow> captureSession (fst r) = None \<and> list_all null_session_event (snd r)"


text \<open>
  A device, a filter and platform answers for the concrete runs: a platform on which every
  call succeeds, one on which the camera cannot be opened (so that the request for a
  capture request on the null device fails too), and one on which the image reader cannot
  be created.
\<close>

definition sample_device :: AndroidCamera2Device where
  "sample_device = \<lparr> camId = ''0'', orientation = 90, back_facing = True \<rparr>"

definition sample_filter :: MSFilter where
  "sample_filter = \<lparr> ticker = Some \<lparr> time = 1000 \<rparr> \<rparr>"

definition platform_ok :: start_platform where
  "platform_ok =
     \<lparr> openCamera = (True, Some 1), container_create = Some 2,
       imageReader_new = (True, Some 3), getWindow = (True, Some 4),
       outputTarget_create = Some 5, createCaptureRequest = (True, Some 6),
       sessionOutput_create = Some 7 \<rparr>"

definition platform_open_fails :: start_platform where
  "platform_open_fails = platform_ok\<lparr>openCamera := (False, None), createCaptureRequest := (False, None)\<rparr>"

definition platform_reader_fails :: start_platform where
  "platform_reader_fails = platform_ok\<lparr>imageReader_new := (False, None)\<rparr>"

definition vga :: MSVideoSize where
  "vga = \<lparr> width = 640, height = 480 \<rparr>"

definition vga_only :: "stream_configuration list" where
  "vga_only = [\<lparr> cfg_format = 35, cfg_width = 640, cfg_height = 480, cfg_input = 0 \<rparr>]"

text \<open>
  All eight resource handles of the context are null. The events of a stop that finds the
  capture stopped, and of a start that finds the filter not configured or the capture
  running. An operation that runs \<open>android_camera2_capture_start\<close> from a state in which
  no size was ever set.
\<close>

definition handles_null :: "AndroidCamera2Context \<Rightarrow> bool" where
  "handles_null d \<longleftrightarrow>
     cameraDevice d = None \<and> captureSession d = None \<and>
     captureSessionOutputContainer d = None \<and> captureWindow d = None \<and>
     captureRequest d = None \<and> cameraCaptureOutputTarget d = None \<and>
     sessionCaptureOutput d = None \<and> imageReader d = None"

definition already_stopped :: "event list" where
  "already_stopped =
     [Log Message ''Stopping capture'',
      Log Warning ''Capture was already stopped, ignoring...'']"

definition unconfigured :: "event list" where
  "unconfigured =
     [Log Message ''Starting capture'',
      Log Warning ''Filter hasn't been fully configured yet, don't start'']"

definition already_started :: "event list" where
  "already_started =
     [Log Message ''Starting capture'',
      Log Warning ''Capture was already started, ignoring...'']"

fun starts :: "operation \<Rightarrow> bool" where
  "starts (Start p) = True"
| "starts (SetVSize s c scaler p) = True"
| "starts x = False"

text \<open>The error the image callback logs when it takes the filter for destroyed.\<close>

definition filter_destroyed :: event where
  "filter_destroyed = Log Error ''Filter destroyed, we shouldn't be here !''"

text \<open>
  An image the callback accepts and converts into the block 11; the state of the sample
  filter once it captures at 640 x 480; a list of configurations with no output entry in
  the capture format.
\<close>

definition sample_image :: image_platform where
  "sample_image =
     \<lparr> reader_format = 35, acquire_ok = True,
       next_image = \<lparr> img_width = 640, img_height = 480, uvPixelStride = 2 \<rparr>,
       new_frame = True, converted = Some 11 \<rparr>"

definition running_state :: AndroidCamera2Context where
  "running_state =
     fst (android_camera2_capture_start platform_ok
       ((android_camera2_capture_create_reader (Some sample_filter) sample_device)
          \<lparr>captureSize := vga\<rparr>))"

definition other_formats :: "stream_configuration list" where
  "other_formats =
     [\<lparr> cfg_format = 256, cfg_width = 640, cfg_height = 480, cfg_input = 0 \<rparr>,
      \<lparr> cfg_format = 35, cfg_width = 640, cfg_height = 480, cfg_input = 1 \<rparr>]"

text \<open>
  The frame slot between its two users. A store is one run of the image callback, with
  what the platform answers during it; a drain is one run of the process hook by a ticker
  at time \<open>t\<close>. \<open>accepted d p\<close> is the block the callback puts into the slot: the block
  the converter returns, when the format is the capture format, the image was acquired,
  the filter captures and the frame-rate controller lets the frame through; otherwise the
  callback stores nothing. \<open>stored\<close> lists the blocks the stores put into the slot,
  \<open>freed\<close> and \<open>delivered\<close> the blocks the events free and queue, \<open>held\<close> the block in
  the slot. \<open>since_drain\<close> is the run of stores at the end of a sequence, after its last
  drain, and \<open>latest\<close> the last block stored in it.
\<close>

datatype slot_operation = Store image_platform | Drain "64 word"

fun slot_step ::
  "slot_operation \<Rightarrow> AndroidCamera2Context \<Rightarrow> fault + (AndroidCamera2Context \<times> event list)" where
  "slot_step (Store p) d = android_camera2_capture_on_image_available p d"
| "slot_step (Drain t) d = android_camera2_capture_process \<lparr> ticker = Some \<lparr> time = t \<rparr> \<rparr> d"

fun slot_run ::
  "slot_operation list \<Rightarrow> AndroidCamera2Context \<times> event list \<Rightarrow>
   fault + (AndroidCamera2Context \<times> event list)" where
  "slot_run [] s = Inr s"
| "slot_run (x # xs) s =
     (case slot_step x (fst s) of
        Inl e \<Rightarrow> Inl e
      | Inr (d', e) \<Rightarrow> slot_run xs (d', snd s @ e))"

definition accepted :: "AndroidCamera2Context \<Rightarrow> image_platform \<Rightarrow> mblk option" where
  "accepted d p =
     (if reader_format p = captureFormat d \<and> acquire_ok p \<and> capturing d \<and> new_frame p
      then converted p else None)"

fun stored :: "AndroidCamera2Context \<Rightarrow> slot_operation list \<Rightarrow> mblk list" where
  "stored d [] = []"
| "stored d (Store p # xs) =
     (case accepted d p of Some m \<Rightarrow> m # stored d xs | None \<Rightarrow> stored d xs)"
| "stored d (Drain t # xs) = stored d xs"

fun freed :: "event list \<Rightarrow> mblk list" where
  "freed [] = []"
| "freed (FreeMsg m # es) = m # freed es"
| "freed (e # es) = freed es"

fun delivered :: "event list \<Rightarrow> mblk list" where
  "delivered [] = []"
| "delivered (QueuePut m ts # es) = m # delivered es"
| "delivered (e # es) = delivered es"

fun is_store :: "slot_operation \<Rightarrow> bool" where
  "is_store (Store p) = True"
| "is_store (Drain t) = False"

definition since_drain :: "slot_operation list \<Rightarrow> slot_operation list" where
  "since_drain ops = rev (takeWhile is_store (rev ops))"

definition latest :: "AndroidCamera2Context \<Rightarrow> slot_operation list \<Rightarrow> mblk option" where
  "latest d ops = (case rev (stored d (since_drain ops)) of [] \<Rightarrow> None | m # ms \<Rightarrow> Some m)"

definition held :: "AndroidCamera2Context \<Rightarrow> mblk list" where
  "held d = (case frame d of Some m \<Rightarrow> [m] | None \<Rightarrow> [])"

text \<open>An image like the sample one that the converter turns into the block \<open>m\<close>.\<close>

definition image_into :: "mblk \<Rightarrow> image_platform" where
  "image_into m = sample_image\<lparr>converted := Some m\<rparr>"

text \<open>
  Seven runs of the callback and the hook on the capturing filter: two images, two drains,
  an image the frame-rate controller turns down, two more images.
\<close>

definition sample_slot_operations :: "slot_operation list" where
  "sample_slot_operations =
     [Store (image_into 1), Store (image_into 2), Drain 7, Drain 8,
      Store ((image_into 9)\<lparr>new_frame := False\<rparr>), Store (image_into 3),
      Store (image_into 4)]"

text \<open>A back-facing device whose sensor is mounted at 45 degrees.\<close>

definition skewed_device :: AndroidCamera2Device where
  "skewed_device = \<lparr> camId = ''0'', orientation = 45, back_facing = True \<rparr>"

text \<open>
  A warning or an error among the events; the warning of the detection for a camera whose
  direction was seen before; an enumeration of four cameras facing back, front, back, back.
\<close>

definition is_problem :: "event \<Rightarrow> bool" where
  "is_problem e = (case e of Log l t \<Rightarrow> l \<noteq> Message | _ \<Rightarrow> False)"

definition same_direction_skipped :: event where
  "same_direction_skipped =
     Log Warning ''A camera with the same direction as already been added, skipping this one''"

definition back_front_back_back ::
  "(string \<times> camera_characteristics option) list" where
  "back_front_back_back =
     [(''0'', Some \<lparr> sensor_orientation = 90, lens_facing = 1 \<rparr>),
      (''1'', Some \<lparr> sensor_orientation = 270, lens_facing = 0 \<rparr>),
      (''2'', Some \<lparr> sensor_orientation = 90, lens_facing = 1 \<rparr>),
      (''3'', Some \<lparr> sensor_orientation = 90, lens_facing = 1 \<rparr>)]"

text \<open>
  The choice of a size, in the words of the specification. A candidate is an output
  configuration in the capture format; it is the one requested when it has the width and
  the height configured; its distance is the absolute difference between the area
  requested and its own. \<open>first_closest d cs i\<close>: the candidate at index \<open>i\<close> of \<open>cs\<close> is at
  the least distance, and every candidate before it is strictly further. A real size has
  positive sides and an area within 32 bits.
\<close>

definition is_candidate :: "AndroidCamera2Context \<Rightarrow> stream_configuration \<Rightarrow> bool" where
  "is_candidate d c \<longleftrightarrow> cfg_input c = 0 \<and> cfg_format c = captureFormat d"

definition candidates ::
  "AndroidCamera2Context \<Rightarrow> stream_configuration list \<Rightarrow> stream_configuration list" where
  "candidates d scaler = filter (is_candidate d) scaler"

definition is_requested :: "AndroidCamera2Context \<Rightarrow> stream_configuration \<Rightarrow> bool" where
  "is_requested d c \<longleftrightarrow>
     cfg_width c = width (captureSize d) \<and> cfg_height c = height (captureSize d)"

definition area_distance :: "AndroidCamera2Context \<Rightarrow> stream_configuration \<Rightarrow> int" where
  "area_distance d c =
     \<bar>width (captureSize d) * height (captureSize d) - cfg_width c * cfg_height c\<bar>"

definition config_size :: "stream_configuration \<Rightarrow> MSVideoSize" where
  "config_size c = \<lparr> width = cfg_width c, height = cfg_height c \<rparr>"

definition real_size :: "stream_configuration \<Rightarrow> bool" where
  "real_size c \<longleftrightarrow> 0 < cfg_width c \<and> 0 < cfg_height c \<and> cfg_width c * cfg_height c < 2 ^ 31"

definition first_closest ::
  "AndroidCamera2Context \<Rightarrow> stream_configuration list \<Rightarrow> nat \<Rightarrow> bool" where
  "first_closest d cs i \<longleftrightarrow>
     i < length cs \<and>
     (\<forall>j < length cs. area_distance d (cs ! i) \<le> area_distance d (cs ! j)) \<and>
     (\<forall>j < i. area_distance d (cs ! i) < area_distance d (cs ! j))"

text \<open>
  A context asking for 10 x 10 with a list in which 9 x 10 and 11 x 10 are equally close,
  and a context asking for 640 x 480.
\<close>

definition tie_formats :: "stream_configuration list" where
  "tie_formats =
     [\<lparr> cfg_format = 256, cfg_width = 10, cfg_height = 10, cfg_input = 0 \<rparr>,
      \<lparr> cfg_format = 35, cfg_width = 20, cfg_height = 20, cfg_input = 0 \<rparr>,
      \<lparr> cfg_format = 35, cfg_width = 9, cfg_height = 10, cfg_input = 0 \<rparr>,
      \<lparr> cfg_format = 35, cfg_width = 11, cfg_height = 10, cfg_input = 0 \<rparr>,
      \<lparr> cfg_format = 35, cfg_width = 10, cfg_height = 10, cfg_input = 1 \<rparr>]"

definition asking_10x10 :: AndroidCamera2Context where
  "asking_10x10 =
     (android_camera2_capture_create_reader None sample_device)
       \<lparr>captureSize := \<lparr> width = 10, height = 10 \<rparr>\<rparr>"


definition asking_vga :: AndroidCamera2Context where
  "asking_vga =
     (android_camera2_capture_create_reader None sample_device)\<lparr>captureSize := vga\<rparr>"


section \<open>32-bit arithmetic within its range\<close>

lemma int32_id: "- (2 ^ 31) \<le> x \<Longrightarrow> x < 2 ^ 31 \<Longrightarrow> int32 x = x"
  unfolding int32_def by (rule signed_take_bit_int_eq_self) simp_all

lemma smod_nonneg: "0 \<le> x \<Longrightarrow> 0 < y \<Longrightarrow> x smod y = x mod (y::int)"
  by (simp add: signed_modulo_int_def sgn_if)

section \<open>Evaluation of concrete runs\<close>

lemmas eval_defs =
  android_camera2_capture_create_reader_def ctx_init_def AIMAGE_FORMAT_YUV_420_888_def
  android_camera2_capture_set_vsize_def android_camera2_capture_stop_def
  android_camera2_capture_start_def android_camera2_capture_open_camera_def
  android_camera2_capture_close_camera_def
  android_camera2_capture_choose_best_configurations_def configuration_step_def
  configuration_log_def and_then_def stop_session_def stop_target_def stop_request_def
  stop_container_remove_def stop_session_output_def stop_window_def stop_reader_def
  stop_container_free_def int32_id Let_def
  sample_device_def sample_filter_def platform_ok_def platform_open_fails_def
  platform_reader_fails_def vga_def vga_only_def

lemmas eval_image_defs =
  android_camera2_capture_on_image_available_def filter_destroyed_guard_def
  android_camera2_capture_image_to_mblkt_def android_camera2_capture_get_orientation_def
  frame_store_def sample_image_def running_state_def signed_modulo_int_def

section \<open>Start and stop\<close>

lemma start_guards:
  "width (captureSize d) = 0 \<or> height (captureSize d) = 0 \<Longrightarrow>
   android_camera2_capture_start p d = (d, unconfigured)"
  "width (captureSize d) \<noteq> 0 \<Longrightarrow> height (captureSize d) \<noteq> 0 \<Longrightarrow> capturing d \<Longrightarrow>
   android_camera2_capture_start p d = (d, already_started)"
  by (auto simp: android_camera2_capture_start_def unconfigured_def already_started_def)

lemma start_ignores_open_failure:
  assumes "width (captureSize d) \<noteq> 0" "height (captureSize d) \<noteq> 0" "\<not> capturing d"
    and "cameraDevice d = None" "device d = None \<or> \<not> fst (openCamera p)"
    and "fst (imageReader_new p)" "fst (getWindow p)"
  shows "capturing (fst (android_camera2_capture_start p d))"
    and "cameraDevice (fst (android_camera2_capture_start p d)) = None"
  using assms
  by (auto simp: android_camera2_capture_start_def android_camera2_capture_open_camera_def
      Let_def split_beta split: option.splits)

lemma stop_when_stopped:
  "\<not> capturing d \<Longrightarrow> android_camera2_capture_stop c d = Inr (d, already_stopped)"
  by (simp add: android_camera2_capture_stop_def already_stopped_def)

lemma and_then_fst: "fst (and_then r f) = fst (f (fst r))"
  by (simp add: and_then_def split_beta)

lemma stop_steps_state:
  "fst (stop_session x) = x\<lparr>captureSession := None\<rparr>"
  "fst (stop_target x) = x\<lparr>cameraCaptureOutputTarget := None\<rparr>"
  "fst (stop_request x) = x\<lparr>captureRequest := None\<rparr>"
  "fst (stop_container_remove x) = x"
  "fst (stop_session_output x) = x\<lparr>sessionCaptureOutput := None\<rparr>"
  "fst (stop_window x) = x\<lparr>captureWindow := None\<rparr>"
  "fst (stop_reader x) = x\<lparr>imageReader := None\<rparr>"
  "fst (stop_container_free x) = x\<lparr>captureSessionOutputContainer := None\<rparr>"
  by (cases x; simp add: stop_session_def stop_target_def stop_request_def
      stop_container_remove_def stop_session_output_def stop_window_def stop_reader_def
      stop_container_free_def)+

lemma close_camera_state:
  "android_camera2_capture_close_camera c x = Inr (d', e) \<Longrightarrow> d' = x\<lparr>cameraDevice := None\<rparr>"
  by (cases x) (auto simp: android_camera2_capture_close_camera_def split: if_splits option.splits)

lemma stop_state:
  assumes "capturing d" and "android_camera2_capture_stop c d = Inr (d', e)"
  shows "d' = d\<lparr>capturing := False, captureSession := None, cameraCaptureOutputTarget := None,
                captureRequest := None, sessionCaptureOutput := None, captureWindow := None,
                imageReader := None, captureSessionOutputContainer := None,
                cameraDevice := None\<rparr>"
proof -
  define q where "q = and_then (and_then (and_then (and_then (and_then (and_then (and_then (and_then
                  (d\<lparr>capturing := False\<rparr>, [Log Message ''Stopping capture''])
                  stop_session) stop_target) stop_request) stop_container_remove)
                  stop_session_output) stop_window) stop_reader) stop_container_free"
  from assms obtain e' where
    c: "android_camera2_capture_close_camera c (fst q) = Inr (d', e')"
    by (auto simp: android_camera2_capture_stop_def Let_def q_def split: sum.splits)
  have "fst q = d\<lparr>capturing := False, captureSession := None, cameraCaptureOutputTarget := None,
                captureRequest := None, sessionCaptureOutput := None, captureWindow := None,
                imageReader := None, captureSessionOutputContainer := None\<rparr>"
    by (simp add: q_def and_then_fst stop_steps_state)
  with close_camera_state [OF c] show ?thesis by simp
qed

lemma stop_result:
  assumes "capturing d" and "android_camera2_capture_stop c d = Inr (d', e)"
  shows "\<not> capturing d' \<and> handles_null d'"
  using stop_state [OF assms] by (simp add: handles_null_def)

lemma foldl_no_candidate:
  assumes "\<forall>c \<in> set sc. \<not> (cfg_input c = 0 \<and> cfg_format c = captureFormat d)"
  shows "foldl (configuration_step d) st sc = st"
  using assms
  by (induction sc arbitrary: st) (auto simp: configuration_step_def split_beta)

lemma stop_total:
  assumes "device d = Some dev"
  shows "\<exists>d' e. android_camera2_capture_stop c d = Inr (d', e) \<and> device d' = Some dev \<and>
           captureFormat d' = captureFormat d \<and> captureSize d' = captureSize d \<and> \<not> capturing d'"
proof (cases "capturing d")
  case False
  with assms show ?thesis by (simp add: stop_when_stopped)
next
  case True
  define q where "q = and_then (and_then (and_then (and_then (and_then (and_then (and_then (and_then
                  (d\<lparr>capturing := False\<rparr>, [Log Message ''Stopping capture''])
                  stop_session) stop_target) stop_request) stop_container_remove)
                  stop_session_output) stop_window) stop_reader) stop_container_free"
  have "device (fst q) = Some dev" using assms
    by (simp add: q_def and_then_fst stop_steps_state)
  then have "\<exists>d' e'. android_camera2_capture_close_camera c (fst q) = Inr (d', e')"
    by (simp add: android_camera2_capture_close_camera_def)
  then obtain d' e' where c: "android_camera2_capture_close_camera c (fst q) = Inr (d', e')"
    by blast
  with True have s: "android_camera2_capture_stop c d = Inr (d', snd q @ e' @ [Log Message ''Capture stopped''])"
    by (simp add: android_camera2_capture_stop_def Let_def q_def)
  from stop_state [OF True s] assms s show ?thesis by simp
qed


section \<open>The capture session handle\<close>

lemma open_camera_session:
  "captureSession (fst (android_camera2_capture_open_camera p d)) = captureSession d"
  "list_all null_session_event (snd (android_camera2_capture_open_camera p d))"
  by (simp_all add: android_camera2_capture_open_camera_def null_session_event_def split: option.split)

lemma start_session:
  "captureSession (fst (android_camera2_capture_start p d)) = captureSession d"
  by (simp add: android_camera2_capture_start_def Let_def split_beta open_camera_session)

lemma start_events:
  "captureSession d = None \<Longrightarrow> list_all null_session_event (snd (android_camera2_capture_start p d))"
  by (simp add: android_camera2_capture_start_def Let_def split_beta open_camera_session)
     (simp add: null_session_event_def)

lemma and_then_session:
  assumes "session_null r" and "\<And>x. captureSession x = None \<Longrightarrow> session_null (f x)"
  shows "session_null (and_then r f)"
  using assms by (simp add: and_then_def split_beta session_null_def)

lemma stop_steps_session:
  "captureSession x = None \<Longrightarrow> session_null (stop_session x)"
  "captureSession x = None \<Longrightarrow> session_null (stop_target x)"
  "captureSession x = None \<Longrightarrow> session_null (stop_request x)"
  "captureSession x = None \<Longrightarrow> session_null (stop_container_remove x)"
  "captureSession x = None \<Longrightarrow> session_null (stop_session_output x)"
  "captureSession x = None \<Longrightarrow> session_null (stop_window x)"
  "captureSession x = None \<Longrightarrow> session_null (stop_reader x)"
  "captureSession x = None \<Longrightarrow> session_null (stop_container_free x)"
  by (simp_all add: stop_session_def stop_target_def stop_request_def stop_container_remove_def
      stop_session_output_def stop_window_def stop_reader_def stop_container_free_def
      null_session_event_def session_null_def)

lemma close_camera_session:
  "captureSession d = None \<Longrightarrow> android_camera2_capture_close_camera c d = Inr r \<Longrightarrow>
   session_null r"
  by (auto simp: android_camera2_capture_close_camera_def null_session_event_def session_null_def
      split: if_splits option.splits)

lemma stop_session_inv:
  assumes "captureSession d = None" and "android_camera2_capture_stop c d = Inr r"
  shows "session_null r"
proof (cases "capturing d")
  case False
  with assms show ?thesis
    by (auto simp: android_camera2_capture_stop_def null_session_event_def session_null_def)
next
  case True
  define q where "q = and_then (and_then (and_then (and_then (and_then (and_then (and_then (and_then
                  (d\<lparr>capturing := False\<rparr>, [Log Message ''Stopping capture''])
                  stop_session) stop_target) stop_request) stop_container_remove)
                  stop_session_output) stop_window) stop_reader) stop_container_free"
  have "session_null (d\<lparr>capturing := False\<rparr>, [Log Message ''Stopping capture''])"
    using assms(1) by (simp add: session_null_def null_session_event_def)
  then have q: "session_null q"
    unfolding q_def by (intro and_then_session stop_steps_session)
  from True assms(2) obtain r' where
    c: "android_camera2_capture_close_camera c (fst q) = Inr r'"
    and e: "r = (fst r', snd q @ snd r' @ [Log Message ''Capture stopped''])"
    by (auto simp: android_camera2_capture_stop_def Let_def q_def split: sum.splits)
  from q have "captureSession (fst q) = None" by (simp add: session_null_def)
  from close_camera_session [OF this c] q e show ?thesis
    by (simp add: null_session_event_def session_null_def)
qed

lemma start_session_inv:
  "captureSession d = None \<Longrightarrow> session_null (android_camera2_capture_start p d)"
  by (simp add: session_null_def start_session start_events)

lemma preprocess_session_inv:
  "captureSession d = None \<Longrightarrow> session_null (android_camera2_capture_preprocess p d)"
  using start_session_inv [of d p]
  by (simp add: android_camera2_capture_preprocess_def session_null_def split_beta null_session_event_def)

lemma postprocess_session_inv:
  assumes "captureSession d = None" and "android_camera2_capture_postprocess c d = Inr r"
  shows "session_null r"
proof (cases "capturing d")
  case False
  with assms show ?thesis
    by (auto simp: android_camera2_capture_postprocess_def session_null_def null_session_event_def)
next
  case True
  with assms(2) obtain r' where s: "android_camera2_capture_stop c d = Inr r'"
    and r: "r = (fst r', Log Message ''Filter postprocess'' # snd r')"
    by (auto simp: android_camera2_capture_postprocess_def split: sum.splits)
  from stop_session_inv [OF assms(1) s] r show ?thesis
    by (simp add: session_null_def null_session_event_def)
qed

lemma process_session_inv:
  "captureSession d = None \<Longrightarrow> android_camera2_capture_process f d = Inr r \<Longrightarrow> session_null r"
  by (auto simp: android_camera2_capture_process_def session_null_def null_session_event_def
      split: option.splits)


lemma image_to_mblkt_events:
  "android_camera2_capture_image_to_mblkt cv d img = Inr (m, e) \<Longrightarrow>
   m = cv \<and> list_all null_session_event e"
  by (auto simp: android_camera2_capture_image_to_mblkt_def null_session_event_def Let_def
      split: sum.splits if_splits)

lemma frame_store_session:
  "captureSession d = None \<Longrightarrow> session_null (frame_store m d)"
  by (simp add: frame_store_def session_null_def null_session_event_def split: option.split)

lemma on_image_session_inv:
  assumes "captureSession d = None"
    and "android_camera2_capture_on_image_available p d = Inr r"
  shows "session_null r"
proof -
  have base: "session_null (d, [Call AImage_delete []])"
    "session_null (d, [Log Error ''Couldn't acquire image''])"
    "session_null (d, [Log Error ''Aquired image is in wrong format %d, expected %d''])"
    "session_null (d, [Log Error ''Filter destroyed, we shouldn't be here !''])"
    using assms(1) by (simp_all add: session_null_def null_session_event_def)
  show ?thesis
  proof (cases "reader_format p = captureFormat d \<and> acquire_ok p \<and> capturing d")
    case False
    with assms(2) base show ?thesis
      by (auto simp: android_camera2_capture_on_image_available_def split: if_splits)
  next
    case True
    with assms(2) obtain f t where f: "filter_p d = Some f" and t: "ticker f = Some t"
      by (auto simp: android_camera2_capture_on_image_available_def filter_destroyed_guard_def
          split: option.splits)
    show ?thesis
    proof (cases "new_frame p")
      case False
      with True f t assms(2) base show ?thesis
        by (simp add: android_camera2_capture_on_image_available_def filter_destroyed_guard_def)
    next
      case nf: True
      from True f t nf assms(2) obtain m e1 where
        c: "android_camera2_capture_image_to_mblkt (converted p) d (next_image p) = Inr (m, e1)"
        by (auto simp: android_camera2_capture_on_image_available_def filter_destroyed_guard_def
            split: sum.splits)
      from image_to_mblkt_events [OF c] have e1: "list_all null_session_event e1" by simp
      show ?thesis
      proof (cases m)
        case None
        with True f t nf c assms e1 show ?thesis
          by (auto simp: android_camera2_capture_on_image_available_def filter_destroyed_guard_def
              session_null_def null_session_event_def)
      next
        case (Some b)
        with True f t nf c assms(2) have
          "r = (fst (frame_store b d), e1 @ snd (frame_store b d) @ [Call AImage_delete []])"
          by (auto simp: android_camera2_capture_on_image_available_def filter_destroyed_guard_def
              split_beta)
        with frame_store_session [OF assms(1), of b] e1 show ?thesis
          by (simp add: session_null_def null_session_event_def)
      qed
    qed
  qed
qed

lemma configuration_log_events:
  "list_all null_session_event (concat (map (configuration_log d) scaler))"
  by (induction scaler) (simp_all add: configuration_log_def null_session_event_def)

lemma choose_session_inv:
  assumes "captureSession d = None"
    and "android_camera2_capture_choose_best_configurations sc d = Inr r"
  shows "session_null r"
proof -
  from assms(2) obtain dev where dev: "device d = Some dev"
    by (auto simp: android_camera2_capture_choose_best_configurations_def split: option.splits)
  obtain b fnd where st: "foldl (configuration_step d) (\<lparr> width = 0, height = 0 \<rparr>, False) sc = (b, fnd)"
    by (cases "foldl (configuration_step d) (\<lparr> width = 0, height = 0 \<rparr>, False) sc")
  show ?thesis
    using assms dev st configuration_log_events [of d sc]
    by (cases fnd)
       (auto simp: android_camera2_capture_choose_best_configurations_def session_null_def
          null_session_event_def)
qed

lemma set_vsize_session_inv:
  assumes "captureSession d = None"
    and "android_camera2_capture_set_vsize s c sc p d = Inr (rv, r)"
  shows "session_null r"
proof (cases "width (captureSize d) = width s \<and> height (captureSize d) = height s")
  case True
  with assms show ?thesis
    by (auto simp: android_camera2_capture_set_vsize_def session_null_def null_session_event_def)
next
  case False
  with assms(2) obtain r2 r3 where
    s2: "android_camera2_capture_stop c (d\<lparr>captureSize := s\<rparr>) = Inr r2"
    and s3: "android_camera2_capture_choose_best_configurations sc (fst r2) = Inr r3"
    and r: "r = (fst (android_camera2_capture_start p (fst r3)),
                 [Log Message ''Current preview size is %i/%i, new size will be %i/%i'']
                 @ snd r2 @ snd r3 @ snd (android_camera2_capture_start p (fst r3))
                 @ [Notify (captureSize (fst (android_camera2_capture_start p (fst r3))))])"
    by (auto simp: android_camera2_capture_set_vsize_def split_beta split: sum.splits)
  from assms(1) have "captureSession (d\<lparr>captureSize := s\<rparr>) = None" by simp
  from stop_session_inv [OF this s2] have n2: "session_null r2" .
  then have "captureSession (fst r2) = None" by (simp add: session_null_def)
  from choose_session_inv [OF this s3] have n3: "session_null r3" .
  then have "captureSession (fst r3) = None" by (simp add: session_null_def)
  from start_session_inv [OF this] have "session_null (android_camera2_capture_start p (fst r3))" .
  with n2 n3 r show ?thesis
    by (simp add: session_null_def null_session_event_def)
qed

lemma step_session_inv:
  assumes "captureSession d = None" and "step x d = Inr r"
  shows "session_null r"
proof (cases x)
  case (Preprocess p)
  with assms preprocess_session_inv [of d p] show ?thesis by simp
next
  case (Process f)
  with assms process_session_inv [of d f r] show ?thesis by simp
next
  case (Postprocess c)
  with assms postprocess_session_inv [of d c r] show ?thesis by simp
next
  case (SetVSize s c sc p)
  with assms show ?thesis
    by (auto split: sum.splits dest: set_vsize_session_inv)
next
  case (SetDeviceRotation a)
  with assms show ?thesis
    by (auto simp: android_camera2_capture_set_device_rotation_def session_null_def
        null_session_event_def)
next
  case (OnImageAvailable p)
  with assms on_image_session_inv [of d p r] show ?thesis by simp
next
  case (Start p)
  with assms start_session_inv [of d p] show ?thesis by simp
next
  case (Stop c)
  with assms stop_session_inv [of d c r] show ?thesis by simp
qed

lemma run_session_inv:
  "session_null s \<Longrightarrow> run ops s = Inr r \<Longrightarrow> session_null r"
proof (induction ops arbitrary: s)
  case Nil
  then show ?case by simp
next
  case (Cons x xs)
  from Cons.prems(2) obtain r1 where
    s1: "step x (fst s) = Inr r1" and rest: "run xs (fst r1, snd s @ snd r1) = Inr r"
    by (auto split: sum.splits)
  from Cons.prems(1) have "captureSession (fst s) = None" by (simp add: session_null_def)
  from step_session_inv [OF this s1] Cons.prems(1)
  have "session_null (fst r1, snd s @ snd r1)" by (simp add: session_null_def)
  from Cons.IH [OF this rest] show ?case .
qed

text \<open>
  Claim C1. From the state the constructor builds (with or without a device bound by
  \<open>create_reader\<close>), whatever operations run and whatever the platform answers, as long as
  no operation faults: \<open>captureSession\<close> is null in the state reached, every repeating
  request was issued with a null session handle, and no capture session was ever stopped
  or closed.
\<close>

theorem captureSession_stays_null:
  assumes "d0 = ctx_init f \<or> d0 = android_camera2_capture_create_reader f dev"
    and "run ops (d0, []) = Inr (d, evs)"
  shows "captureSession d = None \<and> (\<forall>e \<in> set evs. null_session_event e)"
proof -
  from assms(1) have "session_null (d0, [])"
    by (auto simp: session_null_def ctx_init_def android_camera2_capture_create_reader_def)
  from run_session_inv [OF this assms(2)] show ?thesis
    by (simp add: session_null_def list_all_iff)
qed

theorem captureSession_stays_null_witness:
  "\<exists>d evs.
     run [SetVSize vga True vga_only platform_ok, Stop True]
       (android_camera2_capture_create_reader (Some sample_filter) sample_device, [])
       = Inr (d, evs) \<and>
     Call ACameraCaptureSession_setRepeatingRequest [None, Some 6] \<in> set evs \<and>
     captureSession d = None \<and> list_all null_session_event evs"
proof -
  obtain d evs where r:
    "run [SetVSize vga True vga_only platform_ok, Stop True]
       (android_camera2_capture_create_reader (Some sample_filter) sample_device, [])
       = Inr (d, evs)"
    and m: "Call ACameraCaptureSession_setRepeatingRequest [None, Some 6] \<in> set evs"
    by (simp add: eval_defs)
  from captureSession_stays_null [OF _ r] r m show ?thesis
    by (auto simp: list_all_iff)
qed

section \<open>Start after a failure to open the camera\<close>

text \<open>
  Claim C2, evaluated on a filter with a device bound, a size of 640 x 480 and the capture
  stopped, when \<open>ACameraManager_openCamera\<close> fails: \<open>android_camera2_capture_start\<close> logs
  the failure and goes on. It creates the output container, the image reader, the window,
  the output target, asks the null device for a capture request, issues the repeating
  request and sets \<open>capturing\<close>.
\<close>

theorem start_continues_after_open_failure:
  "capturing (fst (android_camera2_capture_start platform_open_fails
      ((android_camera2_capture_create_reader (Some sample_filter) sample_device)
         \<lparr>captureSize := vga\<rparr>))) = True \<and>
   snd (android_camera2_capture_start platform_open_fails
      ((android_camera2_capture_create_reader (Some sample_filter) sample_device)
         \<lparr>captureSize := vga\<rparr>)) =
   [Log Message ''Starting capture'', Log Message ''Opening camera'',
    Call ACameraManager_create [], Log Message ''Opening camera %s'',
    Call ACameraManager_openCamera [],
    Log Error ''Failed to open camera %s'',
    Call ACaptureSessionOutputContainer_create [], Call AImageReader_new [],
    Call AImageReader_setImageListener [Some 3],
    Log Message ''Image reader created'',
    Call AImageReader_getWindow [Some 3],
    Call ANativeWindow_acquire [Some 4],
    Log Message ''Capture window acquired'',
    Call ACameraOutputTarget_create [Some 4],
    Call ACameraDevice_createCaptureRequest [None],
    Log Error ''Failed to create capture request'',
    Call ACaptureRequest_addTarget [None, Some 5],
    Call ACaptureSessionOutput_create [Some 4],
    Call ACaptureSessionOutputContainer_add [Some 2, Some 7],
    Call ACameraCaptureSession_setRepeatingRequest [None, None],
    Log Message ''Capture started'']"
  by (simp add: eval_defs)


section \<open>Detection of the cameras\<close>

text \<open>
  Claim C3 as the code has it. When the platform lists four cameras facing back, front,
  back and back, whatever their ids and sensor orientations, the detection adds exactly
  two cameras to the manager: the first back-facing one and the first front-facing one.
  Each is put at the head of the manager's list, so the front-facing camera, added second,
  comes before the back-facing one. The third and fourth cameras are dropped with a
  warning each, and nothing is logged as an error.
\<close>

theorem detect_back_front_back_back:
  "fst (android_camera2_capture_detect
          (Some [(i1, Some \<lparr> sensor_orientation = o1, lens_facing = ACAMERA_LENS_FACING_BACK \<rparr>),
                 (i2, Some \<lparr> sensor_orientation = o2, lens_facing = ACAMERA_LENS_FACING_FRONT \<rparr>),
                 (i3, Some \<lparr> sensor_orientation = o3, lens_facing = ACAMERA_LENS_FACING_BACK \<rparr>),
                 (i4, Some \<lparr> sensor_orientation = o4, lens_facing = ACAMERA_LENS_FACING_BACK \<rparr>)])
          obj) =
     \<lparr> id_cam = take 25 (''Camera2Device'' @ i2 @ ''Facingfront''),
       name = take 25 (''Camera2Device'' @ i2 @ ''Facingfront''),
       data = \<lparr> camId = i2, orientation = o2, back_facing = False \<rparr> \<rparr> #
     \<lparr> id_cam = take 25 (''Camera2Device'' @ i1 @ ''Facingback''),
       name = take 25 (''Camera2Device'' @ i1 @ ''Facingback''),
       data = \<lparr> camId = i1, orientation = o1, back_facing = True \<rparr> \<rparr> #
     obj \<and>
   filter is_problem
     (snd (android_camera2_capture_detect
          (Some [(i1, Some \<lparr> sensor_orientation = o1, lens_facing = ACAMERA_LENS_FACING_BACK \<rparr>),
                 (i2, Some \<lparr> sensor_orientation = o2, lens_facing = ACAMERA_LENS_FACING_FRONT \<rparr>),
                 (i3, Some \<lparr> sensor_orientation = o3, lens_facing = ACAMERA_LENS_FACING_BACK \<rparr>),
                 (i4, Some \<lparr> sensor_orientation = o4, lens_facing = ACAMERA_LENS_FACING_BACK \<rparr>)])
          obj)) =
     [same_direction_skipped, same_direction_skipped]"
  by (simp add: android_camera2_capture_detect_def detect_step_def
      ms_web_cam_manager_prepend_cam_def ACAMERA_LENS_FACING_BACK_def
      ACAMERA_LENS_FACING_FRONT_def is_problem_def same_direction_skipped_def Let_def)

text \<open>
  The claim as it is written has the back-facing camera before the front-facing one in
  the registry. On the cameras 0 (back), 1 (front), 2 (back), 3 (back) the list of the
  manager is camera 1, then camera 0.
\<close>

theorem detect_order_counterexample:
  "map (camId \<circ> data) (fst (android_camera2_capture_detect (Some back_front_back_back) [])) =
     [''1'', ''0''] \<and>
   map (back_facing \<circ> data) (fst (android_camera2_capture_detect (Some back_front_back_back) [])) =
     [False, True]"
  by (simp add: android_camera2_capture_detect_def detect_step_def
      ms_web_cam_manager_prepend_cam_def ACAMERA_LENS_FACING_BACK_def
      back_front_back_back_def Let_def)


section \<open>The effective orientation\<close>

lemma get_orientation_value:
  assumes "device d = Some dev" and "0 \<le> orientation dev" and "orientation dev < 360"
    and "s = (if back_facing dev then orientation dev - rotation d
              else orientation dev + rotation d)"
    and "- 360 \<le> s" and "s < 2 ^ 31"
  shows "android_camera2_capture_get_orientation d = Inr (s mod 360)"
proof -
  have s32: "int32 s = s" using assms(5,6) by (intro int32_id) simp_all
  show ?thesis
  proof (cases "s < 0")
    case True
    with assms(5,6) have "int32 (s + 360) = s + 360" by (intro int32_id) simp_all
    moreover from True assms(5) have "(s + 360) smod 360 = s mod 360"
      by (simp add: smod_nonneg)
    ultimately show ?thesis using assms(1,4) s32 True
      by (auto simp: android_camera2_capture_get_orientation_def Let_def)
  next
    case False
    then have "s smod 360 = s mod 360" by (simp add: smod_nonneg)
    with assms(1,4) s32 False show ?thesis
      by (auto simp: android_camera2_capture_get_orientation_def Let_def)
  qed
qed

lemma mod_360_180: "(s mod 360) smod 180 = 0 \<longleftrightarrow> (s::int) mod 180 = 0"
proof -
  have "(s mod 360) smod 180 = (s mod 360) mod 180" by (simp add: smod_nonneg)
  also have "\<dots> = s mod 180" by (simp add: mod_mod_cancel)
  finally show ?thesis by simp
qed

lemma quarter_turns:
  assumes "90 dvd (s::int)"
  shows "s mod 180 \<noteq> 0 \<longleftrightarrow> s mod 360 = 90 \<or> s mod 360 = 270"
proof -
  from assms obtain k where k: "s = 90 * k" by (auto simp: dvd_def)
  have a: "s mod 360 = 90 * (k mod 4)"
    using mult_mod_right [of 90 k 4] by (simp add: k)
  have b: "s mod 180 = 90 * (k mod 2)"
    using mult_mod_right [of 90 k 2] by (simp add: k)
  have c: "k mod 2 = (k mod 4) mod 2"
    by (simp add: mod_mod_cancel)
  have "k mod 4 = 0 \<or> k mod 4 = 1 \<or> k mod 4 = 2 \<or> k mod 4 = 3"
    by arith
  then show ?thesis
    unfolding a b c by auto
qed

text \<open>
  Claim C4 as the code has it. Let \<open>s\<close> be the sensor orientation minus the rotation hint
  for a back-facing device, plus the hint for a front-facing one. For a sensor orientation
  in [0, 360) and a hint with \<open>s\<close> at least -360 (and within 32 bits), the effective
  orientation is \<open>s mod 360\<close>, in [0, 360). The size the filter reports and the size it
  hands to the pixel converter have width and height exchanged exactly when the effective
  orientation is not a multiple of 180; when sensor orientation and hint are multiples of
  90, that is exactly when it is 90 or 270.
\<close>

theorem orientation_within_one_turn:
  assumes "device d = Some dev" and "0 \<le> orientation dev" and "orientation dev < 360"
    and "s = (if back_facing dev then orientation dev - rotation d
              else orientation dev + rotation d)"
    and "- 360 \<le> s" and "s < 2 ^ 31"
  shows "android_camera2_capture_get_orientation d = Inr (s mod 360) \<and>
         0 \<le> s mod 360 \<and> s mod 360 < 360 \<and>
         android_camera2_capture_get_vsize d =
           Inr (if s mod 180 = 0
                then \<lparr> width = width (captureSize d), height = height (captureSize d) \<rparr>
                else \<lparr> width = height (captureSize d), height = width (captureSize d) \<rparr>) \<and>
         android_camera2_capture_image_to_mblkt cv d img =
           Inr (cv, [Log Message ''Image %p size %d/%d'',
                     Convert (uvPixelStride img = 1) (s mod 360)
                       (if s mod 180 = 0 then img_width img else img_height img)
                       (if s mod 180 = 0 then img_height img else img_width img)]) \<and>
         (90 dvd orientation dev \<and> 90 dvd rotation d \<longrightarrow>
            (s mod 180 \<noteq> 0 \<longleftrightarrow> s mod 360 = 90 \<or> s mod 360 = 270))"
proof -
  note o = get_orientation_value [OF assms]
  have q: "90 dvd s" if "90 dvd orientation dev \<and> 90 dvd rotation d"
    using that assms(4) by auto
  show ?thesis
    using o quarter_turns [OF q]
    by (simp add: android_camera2_capture_get_vsize_def
        android_camera2_capture_image_to_mblkt_def mod_360_180)
qed

theorem orientation_within_one_turn_witness:
  "device ((android_camera2_capture_create_reader None sample_device)
             \<lparr>rotation := 270, captureSize := vga\<rparr>) = Some sample_device \<and>
   0 \<le> orientation sample_device \<and> orientation sample_device < 360 \<and>
   - 360 \<le> orientation sample_device - 270 \<and> orientation sample_device - 270 < 2 ^ 31 \<and>
   android_camera2_capture_get_orientation
     ((android_camera2_capture_create_reader None sample_device)
        \<lparr>rotation := 270, captureSize := vga\<rparr>) = Inr 180 \<and>
   android_camera2_capture_get_vsize
     ((android_camera2_capture_create_reader None sample_device)
        \<lparr>rotation := 270, captureSize := vga\<rparr>) = Inr \<lparr> width = 640, height = 480 \<rparr>"
proof -
  let ?d = "(android_camera2_capture_create_reader None sample_device)
              \<lparr>rotation := 270, captureSize := vga\<rparr>"
  have h1: "device ?d = Some sample_device"
    by (simp add: android_camera2_capture_create_reader_def)
  have h2: "0 \<le> orientation sample_device" and h3: "orientation sample_device < 360"
    by (simp_all add: sample_device_def)
  have h4: "orientation sample_device - 270 =
      (if back_facing sample_device then orientation sample_device - rotation ?d
       else orientation sample_device + rotation ?d)"
    by (simp add: sample_device_def)
  have h5: "- 360 \<le> orientation sample_device - 270"
    and h6: "orientation sample_device - 270 < 2 ^ 31"
    by (simp_all add: sample_device_def)
  from orientation_within_one_turn [OF h1 h2 h3 h4 h5 h6] h1 h2 h3 h5 h6 show ?thesis
    by (simp add: sample_device_def vga_def)
qed


text \<open>
  The claim as it is written fails in two places. With a back-facing sensor at 90 and a
  hint of 500, the source adds 360 once to -410 and takes the remainder of -50, which is
  -50 and not 310. With a sensor at 45 and no hint the effective orientation is 45, which
  is neither 90 nor 270, and the reported size is exchanged all the same.
\<close>

theorem orientation_counterexample:
  "android_camera2_capture_get_orientation
     ((android_camera2_capture_create_reader None sample_device)\<lparr>rotation := 500\<rparr>) = Inr (- 50) \<and>
   (orientation sample_device - 500) mod 360 = 310 \<and>
   android_camera2_capture_get_orientation
     ((android_camera2_capture_create_reader None skewed_device)\<lparr>captureSize := vga\<rparr>) = Inr 45 \<and>
   android_camera2_capture_get_vsize
     ((android_camera2_capture_create_reader None skewed_device)\<lparr>captureSize := vga\<rparr>)
     = Inr \<lparr> width = 480, height = 640 \<rparr>"
  by (simp add: android_camera2_capture_get_orientation_def android_camera2_capture_get_vsize_def
      android_camera2_capture_create_reader_def ctx_init_def sample_device_def skewed_device_def
      vga_def int32_id signed_modulo_int_def Let_def)


section \<open>The choice of the capture size\<close>

lemma step_other:
  "\<not> is_candidate d c \<Longrightarrow> configuration_step d st c = st"
  by (auto simp: configuration_step_def is_candidate_def split_beta)

lemma step_exact:
  "is_candidate d c \<Longrightarrow> is_requested d c \<Longrightarrow> configuration_step d (b, f) c = (b, True)"
  by (simp add: configuration_step_def is_candidate_def is_requested_def)

lemma step_first:
  "is_candidate d c \<Longrightarrow> \<not> is_requested d c \<Longrightarrow>
   configuration_step d (\<lparr> width = 0, height = 0 \<rparr>, f) c = (config_size c, f)"
  by (auto simp: configuration_step_def is_candidate_def is_requested_def config_size_def
      int32_def)

lemma real_size_area:
  assumes "real_size c"
  shows "int32 (cfg_width c * cfg_height c) = cfg_width c * cfg_height c"
    and "cfg_width c * cfg_height c \<noteq> 0"
proof -
  from assms have "0 < cfg_width c" and "0 < cfg_height c"
    and u: "cfg_width c * cfg_height c < 2 ^ 31"
    by (simp_all add: real_size_def)
  then have p: "0 < cfg_width c * cfg_height c" by simp
  from p u show "int32 (cfg_width c * cfg_height c) = cfg_width c * cfg_height c"
    by (intro int32_id) simp_all
  from assms show "cfg_width c * cfg_height c \<noteq> 0" by (simp add: real_size_def)
qed

lemma step_next:
  assumes "is_candidate d c" and "\<not> is_requested d c" and "real_size c" and "real_size b"
    and "int32 (width (captureSize d) * height (captureSize d)) =
         width (captureSize d) * height (captureSize d)"
  shows "configuration_step d (config_size b, f) c =
         (if area_distance d c < area_distance d b then config_size c else config_size b, f)"
  using assms real_size_area [OF assms(3)] real_size_area [OF assms(4)]
  by (auto simp: configuration_step_def is_candidate_def is_requested_def config_size_def
      area_distance_def Let_def)

lemma candidates_snoc:
  "candidates d (xs @ [x]) = candidates d xs @ (if is_candidate d x then [x] else [])"
  by (simp add: candidates_def)

lemma first_closest_single: "first_closest d [c] 0"
  by (simp add: first_closest_def)

lemma first_closest_keep:
  assumes "first_closest d cs i" and "\<not> area_distance d c < area_distance d (cs ! i)"
  shows "first_closest d (cs @ [c]) i"
  using assms
  by (auto simp: first_closest_def nth_append less_Suc_eq)

lemma first_closest_take:
  assumes "first_closest d cs i" and "area_distance d c < area_distance d (cs ! i)"
  shows "first_closest d (cs @ [c]) (length cs)"
proof -
  have "area_distance d c < area_distance d (cs ! j)" if "j < length cs" for j
  proof -
    from assms(1) that have "area_distance d (cs ! i) \<le> area_distance d (cs ! j)"
      by (simp add: first_closest_def)
    with assms(2) show ?thesis by simp
  qed
  then show ?thesis
    by (auto simp: first_closest_def nth_append less_Suc_eq intro: less_imp_le)
qed

lemma scan_no_exact:
  assumes "\<forall>c \<in> set (candidates d scaler). \<not> is_requested d c \<and> real_size c"
    and "int32 (width (captureSize d) * height (captureSize d)) =
         width (captureSize d) * height (captureSize d)"
  shows "(candidates d scaler = [] \<longrightarrow>
            foldl (configuration_step d) (\<lparr> width = 0, height = 0 \<rparr>, False) scaler =
              (\<lparr> width = 0, height = 0 \<rparr>, False)) \<and>
         (candidates d scaler \<noteq> [] \<longrightarrow>
            (\<exists>i. first_closest d (candidates d scaler) i \<and>
                 foldl (configuration_step d) (\<lparr> width = 0, height = 0 \<rparr>, False) scaler =
                   (config_size (candidates d scaler ! i), False)))"
  using assms(1)
proof (induction scaler rule: rev_induct)
  case Nil
  then show ?case by (simp add: candidates_def)
next
  case (snoc x xs)
  let ?cs = "candidates d xs"
  let ?init = "(\<lparr> width = 0, height = 0 \<rparr>, False)"
  from snoc.prems have pre: "\<forall>c \<in> set ?cs. \<not> is_requested d c \<and> real_size c"
    by (simp add: candidates_snoc)
  note IH = snoc.IH [OF pre]
  show ?case
  proof (cases "is_candidate d x")
    case False
    with IH show ?thesis by (simp add: candidates_snoc step_other)
  next
    case True
    with snoc.prems have nx: "\<not> is_requested d x" and rx: "real_size x"
      by (simp_all add: candidates_snoc)
    show ?thesis
    proof (cases "?cs = []")
      case Nil: True
      with IH have "foldl (configuration_step d) ?init xs = ?init" by simp
      with True nx have "foldl (configuration_step d) ?init (xs @ [x]) = (config_size x, False)"
        by (simp add: step_first)
      with True Nil first_closest_single [of d x] show ?thesis
        by (auto simp: candidates_snoc)
    next
      case False
      with IH obtain i where fc: "first_closest d ?cs i"
        and st: "foldl (configuration_step d) ?init xs = (config_size (?cs ! i), False)"
        by blast
      from fc have "i < length ?cs" by (simp add: first_closest_def)
      then have "?cs ! i \<in> set ?cs" by simp
      with pre have rb: "real_size (?cs ! i)" by simp
      note sn = step_next [OF True nx rx rb assms(2), of False]
      show ?thesis
      proof (cases "area_distance d x < area_distance d (?cs ! i)")
        case less: True
        with st sn have "foldl (configuration_step d) ?init (xs @ [x]) = (config_size x, False)"
          by simp
        with True first_closest_take [OF fc less] show ?thesis
          by (auto simp: candidates_snoc intro!: exI [of _ "length ?cs"])
      next
        case nless: False
        with st sn have "foldl (configuration_step d) ?init (xs @ [x])
                         = (config_size (?cs ! i), False)"
          by simp
        with True first_closest_keep [OF fc nless] \<open>i < length ?cs\<close> show ?thesis
          by (auto simp: candidates_snoc nth_append intro!: exI [of _ i])
      qed
    qed
  qed
qed

lemma scan_found:
  "snd (foldl (configuration_step d) (b, f) scaler) =
     (f \<or> (\<exists>c \<in> set (candidates d scaler). is_requested d c))"
proof (induction scaler arbitrary: b f)
  case Nil
  then show ?case by (simp add: candidates_def)
next
  case (Cons x xs)
  obtain b' f' where s: "configuration_step d (b, f) x = (b', f')"
    by (cases "configuration_step d (b, f) x")
  have "f' = (f \<or> is_candidate d x \<and> is_requested d x)"
    using s
    by (auto simp: configuration_step_def is_candidate_def is_requested_def Let_def
        split: if_splits)
  with Cons.IH [of b' f'] s show ?case
    by (auto simp: candidates_def)
qed


text \<open>
  Claim C5. On a filter with its device bound, with candidates of real sizes and a
  requested area within 32 bits: if the requested size is among the candidates, the
  configured size stays the requested one; if it is not and there is a candidate, the
  configured size becomes the size of the first candidate, in the order of the platform's
  list, that is closest in area to the request.
\<close>

theorem resolution_negotiation:
  assumes "device d = Some dev"
    and "\<forall>c \<in> set (candidates d scaler). real_size c"
    and "- (2 ^ 31) \<le> width (captureSize d) * height (captureSize d)"
    and "width (captureSize d) * height (captureSize d) < 2 ^ 31"
  shows "((\<exists>c \<in> set (candidates d scaler). is_requested d c) \<longrightarrow>
            (\<exists>e. android_camera2_capture_choose_best_configurations scaler d = Inr (d, e))) \<and>
         ((\<forall>c \<in> set (candidates d scaler). \<not> is_requested d c) \<and> candidates d scaler \<noteq> [] \<longrightarrow>
            (\<exists>i e. first_closest d (candidates d scaler) i \<and>
                   android_camera2_capture_choose_best_configurations scaler d =
                     Inr (d\<lparr>captureSize := config_size (candidates d scaler ! i)\<rparr>, e)))"
proof (intro conjI impI)
  let ?init = "(\<lparr> width = 0, height = 0 \<rparr>, False)"
  obtain b f where st: "foldl (configuration_step d) ?init scaler = (b, f)"
    by (cases "foldl (configuration_step d) ?init scaler")
  {
    assume "\<exists>c \<in> set (candidates d scaler). is_requested d c"
    with scan_found [of d "\<lparr> width = 0, height = 0 \<rparr>" False scaler] st have "f" by simp
    with st assms(1)
    show "\<exists>e. android_camera2_capture_choose_best_configurations scaler d = Inr (d, e)"
      by (simp add: android_camera2_capture_choose_best_configurations_def)
  next
    assume a: "(\<forall>c \<in> set (candidates d scaler). \<not> is_requested d c) \<and> candidates d scaler \<noteq> []"
    from assms(3,4)
    have r: "int32 (width (captureSize d) * height (captureSize d)) =
             width (captureSize d) * height (captureSize d)"
      by (intro int32_id)
    from a assms(2)
    have "\<forall>c \<in> set (candidates d scaler). \<not> is_requested d c \<and> real_size c" by simp
    from scan_no_exact [OF this r] a st obtain i where
      fc: "first_closest d (candidates d scaler) i"
      and b: "b = config_size (candidates d scaler ! i)" and f: "\<not> f"
      by auto
    from st b f assms(1)
    have "\<exists>e. android_camera2_capture_choose_best_configurations scaler d =
             Inr (d\<lparr>captureSize := config_size (candidates d scaler ! i)\<rparr>, e)"
      by (simp add: android_camera2_capture_choose_best_configurations_def config_size_def)
    with fc
    show "\<exists>i e. first_closest d (candidates d scaler) i \<and>
            android_camera2_capture_choose_best_configurations scaler d =
              Inr (d\<lparr>captureSize := config_size (candidates d scaler ! i)\<rparr>, e)"
      by blast
  }
qed

theorem resolution_negotiation_witness:
  "device asking_10x10 = Some sample_device \<and>
   list_all real_size (candidates asking_10x10 tie_formats) \<and>
   \<not> list_ex (is_requested asking_10x10) (candidates asking_10x10 tie_formats) \<and>
   map config_size (candidates asking_10x10 tie_formats) =
     [\<lparr> width = 20, height = 20 \<rparr>, \<lparr> width = 9, height = 10 \<rparr>, \<lparr> width = 11, height = 10 \<rparr>] \<and>
   map (area_distance asking_10x10) (candidates asking_10x10 tie_formats) = [300, 10, 10] \<and>
   map_sum id fst (android_camera2_capture_choose_best_configurations tie_formats asking_10x10) =
     Inr (asking_10x10\<lparr>captureSize := \<lparr> width = 9, height = 10 \<rparr>\<rparr>) \<and>
   list_ex (is_requested asking_vga) (candidates asking_vga vga_only) \<and>
   map_sum id fst (android_camera2_capture_choose_best_configurations vga_only asking_vga) =
     Inr asking_vga"
proof -
  have v: "candidates asking_vga vga_only = vga_only"
    by (simp add: candidates_def is_candidate_def vga_only_def asking_vga_def
        android_camera2_capture_create_reader_def ctx_init_def AIMAGE_FORMAT_YUV_420_888_def)
  have v1: "device asking_vga = Some sample_device"
    by (simp add: asking_vga_def android_camera2_capture_create_reader_def)
  have v2: "\<forall>c \<in> set (candidates asking_vga vga_only). real_size c"
    by (simp add: v) (simp add: vga_only_def real_size_def)
  have v3: "- (2 ^ 31) \<le> width (captureSize asking_vga) * height (captureSize asking_vga)"
    and v4: "width (captureSize asking_vga) * height (captureSize asking_vga) < 2 ^ 31"
    by (simp_all add: asking_vga_def vga_def)
  have v5: "\<exists>c \<in> set (candidates asking_vga vga_only). is_requested asking_vga c"
    by (simp add: v) (simp add: vga_only_def is_requested_def asking_vga_def vga_def)
  from resolution_negotiation [OF v1 v2 v3 v4] v5
  have exact: "\<exists>e. android_camera2_capture_choose_best_configurations vga_only asking_vga =
      Inr (asking_vga, e)"
    by blast
  have c: "candidates asking_10x10 tie_formats =
     [\<lparr> cfg_format = 35, cfg_width = 20, cfg_height = 20, cfg_input = 0 \<rparr>,
      \<lparr> cfg_format = 35, cfg_width = 9, cfg_height = 10, cfg_input = 0 \<rparr>,
      \<lparr> cfg_format = 35, cfg_width = 11, cfg_height = 10, cfg_input = 0 \<rparr>]"
    by (simp add: candidates_def is_candidate_def tie_formats_def asking_10x10_def
        android_camera2_capture_create_reader_def ctx_init_def AIMAGE_FORMAT_YUV_420_888_def)
  have s: "captureSize asking_10x10 = \<lparr> width = 10, height = 10 \<rparr>"
    by (simp add: asking_10x10_def)
  have h1: "device asking_10x10 = Some sample_device"
    by (simp add: asking_10x10_def android_camera2_capture_create_reader_def)
  have h2: "\<forall>c \<in> set (candidates asking_10x10 tie_formats). real_size c"
    by (simp add: c real_size_def)
  have h3: "- (2 ^ 31) \<le> width (captureSize asking_10x10) * height (captureSize asking_10x10)"
    and h4: "width (captureSize asking_10x10) * height (captureSize asking_10x10) < 2 ^ 31"
    by (simp_all add: s)
  have n: "\<forall>c \<in> set (candidates asking_10x10 tie_formats). \<not> is_requested asking_10x10 c"
    by (simp add: c s is_requested_def)
  have ne: "candidates asking_10x10 tie_formats \<noteq> []"
    by (simp add: c)
  have dist: "map (area_distance asking_10x10) (candidates asking_10x10 tie_formats) = [300, 10, 10]"
    by (simp add: c s area_distance_def)
  from resolution_negotiation [OF h1 h2 h3 h4] n ne obtain i e where
    fc: "first_closest asking_10x10 (candidates asking_10x10 tie_formats) i"
    and r: "android_camera2_capture_choose_best_configurations tie_formats asking_10x10 =
        Inr (asking_10x10\<lparr>captureSize := config_size (candidates asking_10x10 tie_formats ! i)\<rparr>, e)"
    by blast
  from fc have "i < 3"
    and le: "\<forall>j < 3. area_distance asking_10x10 (candidates asking_10x10 tie_formats ! i)
               \<le> area_distance asking_10x10 (candidates asking_10x10 tie_formats ! j)"
    and lt: "\<forall>j < i. area_distance asking_10x10 (candidates asking_10x10 tie_formats ! i)
               < area_distance asking_10x10 (candidates asking_10x10 tie_formats ! j)"
    by (simp_all add: first_closest_def c)
  then have "i = 0 \<or> i = 1 \<or> i = 2" by arith
  then have i: "i = 1"
  proof (elim disjE)
    assume "i = 0"
    with le [rule_format, of 1] show ?thesis by (simp add: c s area_distance_def)
  next
    assume "i = 1"
    then show ?thesis .
  next
    assume "i = 2"
    with lt [rule_format, of 1] show ?thesis by (simp add: c s area_distance_def)
  qed
  with r have "android_camera2_capture_choose_best_configurations tie_formats asking_10x10 =
        Inr (asking_10x10\<lparr>captureSize := \<lparr> width = 9, height = 10 \<rparr>\<rparr>, e)"
    by (simp add: c config_size_def)
  with h1 h2 n dist have
    "device asking_10x10 = Some sample_device \<and>
     list_all real_size (candidates asking_10x10 tie_formats) \<and>
     \<not> list_ex (is_requested asking_10x10) (candidates asking_10x10 tie_formats) \<and>
     map config_size (candidates asking_10x10 tie_formats) =
       [\<lparr> width = 20, height = 20 \<rparr>, \<lparr> width = 9, height = 10 \<rparr>, \<lparr> width = 11, height = 10 \<rparr>] \<and>
     map (area_distance asking_10x10) (candidates asking_10x10 tie_formats) = [300, 10, 10] \<and>
     map_sum id fst (android_camera2_capture_choose_best_configurations tie_formats asking_10x10) =
       Inr (asking_10x10\<lparr>captureSize := \<lparr> width = 9, height = 10 \<rparr>\<rparr>)"
    by (simp add: c config_size_def list_all_iff list_ex_iff)
  moreover from v5 have "list_ex (is_requested asking_vga) (candidates asking_vga vga_only)"
    by (simp add: list_ex_iff)
  moreover from exact
  have "map_sum id fst (android_camera2_capture_choose_best_configurations vga_only asking_vga) =
     Inr asking_vga"
    by auto
  ultimately show ?thesis by blast
qed

section \<open>The frame slot\<close>

lemma slot_run_snoc:
  "slot_run (xs @ [x]) s =
     (case slot_run xs s of
        Inl e \<Rightarrow> Inl e
      | Inr (d, ev) \<Rightarrow>
          (case slot_step x d of Inl e \<Rightarrow> Inl e | Inr (d', e') \<Rightarrow> Inr (d', ev @ e')))"
  by (induction xs arbitrary: s) (auto split: sum.splits)

lemma stored_append: "stored d (xs @ ys) = stored d xs @ stored d ys"
  by (induction d xs rule: stored.induct) (simp_all split: option.split)

lemma freed_append: "freed (xs @ ys) = freed xs @ freed ys"
  by (induction xs rule: freed.induct) simp_all

lemma delivered_append: "delivered (xs @ ys) = delivered xs @ delivered ys"
  by (induction xs rule: delivered.induct) simp_all

lemma latest_snoc:
  "latest d (xs @ [Store p]) = (case accepted d p of Some m \<Rightarrow> Some m | None \<Rightarrow> latest d xs)"
  "latest d (xs @ [Drain t]) = None"
  by (simp_all add: latest_def since_drain_def stored_append split: option.split)

lemma latest_Nil: "latest d [] = None"
  by (simp add: latest_def since_drain_def)

lemma accepted_frame: "accepted (d\<lparr>frame := x\<rparr>) p = accepted d p"
  by (simp add: accepted_def)

lemma stored_frame: "stored (d\<lparr>frame := x\<rparr>) ops = stored d ops"
  by (induction d ops rule: stored.induct) (simp_all add: accepted_frame split: option.split)

text \<open>
  The image callback on a filter that has its ticker and its device: it returns, it puts
  the accepted block into the slot after freeing the block the slot held, or leaves the
  slot as it is, and it queues nothing.
\<close>

lemma image_to_mblkt_total:
  assumes "device d = Some dev"
  shows "\<exists>e. android_camera2_capture_image_to_mblkt cv d img = Inr (cv, e) \<and>
             freed e = [] \<and> delivered e = []"
  using assms
  by (simp add: android_camera2_capture_image_to_mblkt_def
      android_camera2_capture_get_orientation_def Let_def split_beta)

lemma on_image_available_store:
  assumes "filter_p d = Some f" and "ticker f = Some tk" and "device d = Some dev"
  shows "\<exists>e. android_camera2_capture_on_image_available p d =
               Inr (case accepted d p of Some m \<Rightarrow> d\<lparr>frame := Some m\<rparr> | None \<Rightarrow> d, e) \<and>
             freed e = (case accepted d p of Some m \<Rightarrow> held d | None \<Rightarrow> []) \<and>
             delivered e = []"
proof (cases "reader_format p = captureFormat d \<and> acquire_ok p \<and> capturing d \<and> new_frame p")
  case False
  then have "accepted d p = None" by (auto simp: accepted_def)
  with False assms show ?thesis
    by (auto simp: android_camera2_capture_on_image_available_def filter_destroyed_guard_def)
next
  case True
  then have a: "accepted d p = converted p" by (simp add: accepted_def)
  from image_to_mblkt_total [OF assms(3), of "converted p" "next_image p"] obtain e1 where
    c: "android_camera2_capture_image_to_mblkt (converted p) d (next_image p) =
          Inr (converted p, e1)"
    and e1: "freed e1 = []" "delivered e1 = []"
    by blast
  show ?thesis
  proof (cases "converted p")
    case None
    with True a c e1 assms show ?thesis
      by (simp add: android_camera2_capture_on_image_available_def filter_destroyed_guard_def
          freed_append delivered_append)
  next
    case (Some m)
    with True a c e1 assms show ?thesis
      by (cases "frame d")
         (simp_all add: android_camera2_capture_on_image_available_def
            filter_destroyed_guard_def frame_store_def held_def freed_append delivered_append)
  qed
qed

lemma slot_step_drain:
  "slot_step (Drain t) d =
     Inr (d\<lparr>frame := None\<rparr>,
          (case frame d of Some m \<Rightarrow> [QueuePut m (ucast (t * 90))] | None \<Rightarrow> []))"
  by (cases d) (simp add: android_camera2_capture_process_def split: option.split)


lemma held_frame: "held (d\<lparr>frame := x\<rparr>) = (case x of Some m \<Rightarrow> [m] | None \<Rightarrow> [])"
  by (simp add: held_def)

lemma slot_run_inv:
  assumes "frame d0 = None" and "filter_p d0 = Some f" and "ticker f = Some tk"
    and "device d0 = Some dev"
  shows "\<exists>evs. slot_run ops (d0, []) = Inr (d0\<lparr>frame := latest d0 ops\<rparr>, evs) \<and>
           mset (stored d0 ops) =
             mset (freed evs) + mset (delivered evs) + mset (held (d0\<lparr>frame := latest d0 ops\<rparr>))"
proof (induction ops rule: rev_induct)
  case Nil
  with assms(1) show ?case by (simp add: latest_Nil held_def)
next
  case (snoc x xs)
  let ?d = "d0\<lparr>frame := latest d0 xs\<rparr>"
  from snoc obtain evs where r: "slot_run xs (d0, []) = Inr (?d, evs)"
    and m: "mset (stored d0 xs) = mset (freed evs) + mset (delivered evs) + mset (held ?d)"
    by blast
  show ?case
  proof (cases x)
    case (Store p)
    have "filter_p ?d = Some f" and "device ?d = Some dev"
      using assms(2,4) by simp_all
    from on_image_available_store [OF this(1) assms(3) this(2), of p] obtain e where
      c: "android_camera2_capture_on_image_available p ?d =
            Inr (case accepted d0 p of Some b \<Rightarrow> ?d\<lparr>frame := Some b\<rparr> | None \<Rightarrow> ?d, e)"
      and fe: "freed e = (case accepted d0 p of Some b \<Rightarrow> held ?d | None \<Rightarrow> [])"
      and de: "delivered e = []"
      by (auto simp: accepted_frame)
    show ?thesis
    proof (cases "accepted d0 p")
      case None
      with Store r m c fe de show ?thesis
        by (simp add: slot_run_snoc latest_snoc stored_append freed_append delivered_append)
    next
      case (Some b)
      with Store r m c fe de show ?thesis
        by (simp add: slot_run_snoc latest_snoc stored_append freed_append delivered_append
            held_frame)
    qed
  next
    case (Drain t)
    show ?thesis
    proof (cases "latest d0 xs")
      case None
      with Drain r m show ?thesis
        by (simp add: slot_run_snoc slot_step_drain latest_snoc stored_append freed_append
            delivered_append held_frame del: slot_step.simps)
    next
      case (Some a)
      with Drain r m show ?thesis
        by (simp add: slot_run_snoc slot_step_drain latest_snoc stored_append freed_append
            delivered_append held_frame del: slot_step.simps)
    qed
  qed
qed

text \<open>
  Claim C6. On a filter with its ticker and its device, from an empty slot, for every
  sequence of runs of the image callback and of the process hook in which each block the
  callback stores is a block of its own: the sequence runs to the end and changes nothing
  but the slot; the slot then holds the last block stored since the last drain, or
  nothing; every stored block is, exactly once, either freed or delivered or still in the
  slot. A drain that follows delivers what the slot holds, or nothing, and empties it. A
  callback that follows frees what the slot holds and puts its block there when it accepts
  the image, and leaves slot and blocks alone when it does not.
\<close>

theorem frame_slot_latest_wins:
  assumes "frame d0 = None" and "filter_p d0 = Some f" and "ticker f = Some tk"
    and "device d0 = Some dev" and "distinct (stored d0 ops)"
  shows "\<exists>d evs.
           slot_run ops (d0, []) = Inr (d, evs) \<and>
           d = d0\<lparr>frame := latest d0 ops\<rparr> \<and>
           mset (stored d0 ops) = mset (freed evs) + mset (delivered evs) + mset (held d) \<and>
           distinct (freed evs @ delivered evs @ held d) \<and>
           slot_run (ops @ [Drain t]) (d0, []) =
             Inr (d\<lparr>frame := None\<rparr>,
                  evs @ (case latest d0 ops of
                           Some m \<Rightarrow> [QueuePut m (ucast (t * 90))] | None \<Rightarrow> [])) \<and>
           (\<exists>e. slot_run (ops @ [Store p]) (d0, []) =
                  Inr (case accepted d0 p of Some m \<Rightarrow> d\<lparr>frame := Some m\<rparr> | None \<Rightarrow> d,
                       evs @ e) \<and>
                freed e = (case accepted d0 p of Some m \<Rightarrow> held d | None \<Rightarrow> []) \<and>
                delivered e = [])"
proof -
  let ?d = "d0\<lparr>frame := latest d0 ops\<rparr>"
  from slot_run_inv [OF assms(1-4), of ops] obtain evs where
    r: "slot_run ops (d0, []) = Inr (?d, evs)"
    and m: "mset (stored d0 ops) = mset (freed evs) + mset (delivered evs) + mset (held ?d)"
    by blast
  from m have "mset (stored d0 ops) = mset (freed evs @ delivered evs @ held ?d)"
    by (simp add: ac_simps)
  with assms(5) have dist: "distinct (freed evs @ delivered evs @ held ?d)"
    by (metis mset_eq_imp_distinct_iff)
  have a: "slot_run (ops @ [Drain t]) (d0, []) =
             Inr (?d\<lparr>frame := None\<rparr>,
                  evs @ (case latest d0 ops of
                           Some m \<Rightarrow> [QueuePut m (ucast (t * 90))] | None \<Rightarrow> []))"
    using r by (simp add: slot_run_snoc slot_step_drain del: slot_step.simps)
  have "filter_p ?d = Some f" and "device ?d = Some dev"
    using assms(2,4) by simp_all
  from on_image_available_store [OF this(1) assms(3) this(2), of p] obtain e where
    c: "android_camera2_capture_on_image_available p ?d =
          Inr (case accepted d0 p of Some b \<Rightarrow> ?d\<lparr>frame := Some b\<rparr> | None \<Rightarrow> ?d, e)"
    and fe: "freed e = (case accepted d0 p of Some b \<Rightarrow> held ?d | None \<Rightarrow> [])"
    and de: "delivered e = []"
    by (auto simp: accepted_frame)
  from r c have b: "slot_run (ops @ [Store p]) (d0, []) =
      Inr (case accepted d0 p of Some m \<Rightarrow> ?d\<lparr>frame := Some m\<rparr> | None \<Rightarrow> ?d, evs @ e)"
    by (simp add: slot_run_snoc)
  from r m dist a b fe de show ?thesis by blast
qed

theorem frame_slot_latest_wins_witness:
  "frame running_state = None \<and> capturing running_state \<and>
   filter_p running_state = Some sample_filter \<and>
   ticker sample_filter = Some \<lparr> time = 1000 \<rparr> \<and>
   device running_state = Some sample_device \<and>
   stored running_state sample_slot_operations = [1, 2, 3, 4] \<and>
   (\<exists>d evs.
      slot_run sample_slot_operations (running_state, []) = Inr (d, evs) \<and>
      freed evs = [1, 3] \<and> delivered evs = [2] \<and> frame d = Some 4 \<and>
      mset (stored running_state sample_slot_operations) =
        mset (freed evs) + mset (delivered evs) + mset (held d) \<and>
      distinct (freed evs @ delivered evs @ held d) \<and>
      slot_run (sample_slot_operations @ [Drain 47721859]) (running_state, []) =
        Inr (d\<lparr>frame := None\<rparr>, evs @ [QueuePut 4 14]))"
proof -
  have h1: "frame running_state = None" and h2: "filter_p running_state = Some sample_filter"
    and h4: "device running_state = Some sample_device" and c: "capturing running_state"
    and fmt: "captureFormat running_state = 35"
    by (simp_all add: running_state_def eval_defs)
  have h3: "ticker sample_filter = Some \<lparr> time = 1000 \<rparr>"
    by (simp add: sample_filter_def)
  have st: "stored running_state sample_slot_operations = [1, 2, 3, 4]"
    by (simp add: sample_slot_operations_def accepted_def image_into_def sample_image_def c fmt)
  then have h5: "distinct (stored running_state sample_slot_operations)"
    by simp
  have l: "latest running_state sample_slot_operations = Some 4"
    by (simp add: latest_def since_drain_def sample_slot_operations_def accepted_def
        image_into_def sample_image_def c fmt)
  from frame_slot_latest_wins [OF h1 h2 h3 h4 h5, of 47721859 "image_into 5"] obtain d evs where
    r: "slot_run sample_slot_operations (running_state, []) = Inr (d, evs)"
    and d: "d = running_state\<lparr>frame := latest running_state sample_slot_operations\<rparr>"
    and m: "mset (stored running_state sample_slot_operations) =
              mset (freed evs) + mset (delivered evs) + mset (held d)"
    and dist: "distinct (freed evs @ delivered evs @ held d)"
    and dr: "slot_run (sample_slot_operations @ [Drain 47721859]) (running_state, []) =
               Inr (d\<lparr>frame := None\<rparr>,
                    evs @ (case latest running_state sample_slot_operations of
                             Some m \<Rightarrow> [QueuePut m (ucast (47721859 * 90 :: 64 word))]
                           | None \<Rightarrow> []))"
    by blast
  have ev: "slot_run sample_slot_operations (running_state, []) =
      Inr (running_state\<lparr>frame := Some 4\<rparr>,
        [Log Message ''Image %p size %d/%d'', Convert False 90 480 640,
         Call AImage_delete [], Log Message ''Image %p size %d/%d'',
         Convert False 90 480 640, FreeMsg 1, Call AImage_delete [],
         QueuePut 2 630, Call AImage_delete [],
         Log Message ''Image %p size %d/%d'', Convert False 90 480 640,
         Call AImage_delete [], Log Message ''Image %p size %d/%d'',
         Convert False 90 480 640, FreeMsg 3, Call AImage_delete []])"
    by (simp add: sample_slot_operations_def image_into_def eval_image_defs eval_defs
        android_camera2_capture_process_def)
  with r have e: "freed evs = [1, 3]" "delivered evs = [2]"
    by auto
  have u: "ucast (47721859 * 90 :: 64 word) = (14 :: 32 word)"
    by simp
  from d l have f: "frame d = Some 4" by simp
  from dr l u have "slot_run (sample_slot_operations @ [Drain 47721859]) (running_state, []) =
        Inr (d\<lparr>frame := None\<rparr>, evs @ [QueuePut 4 14])"
    by simp
  with h1 h2 h3 h4 c st r e f m dist show ?thesis by blast
qed


section \<open>Stopping twice, stopping before any start\<close>

lemma no_start_step:
  assumes "\<not> starts x" and "step x d = Inr (d', e)"
    and "handles_null d" "\<not> capturing d" "width (captureSize d) = 0" "height (captureSize d) = 0"
  shows "handles_null d' \<and> \<not> capturing d' \<and> width (captureSize d') = 0 \<and> height (captureSize d') = 0"
proof (cases x)
  case (Preprocess p)
  with assms show ?thesis by (auto simp: android_camera2_capture_preprocess_def)
next
  case (Process f)
  with assms show ?thesis
    by (auto simp: android_camera2_capture_process_def handles_null_def split: option.splits)
next
  case (Postprocess c)
  with assms show ?thesis by (auto simp: android_camera2_capture_postprocess_def)
next
  case (SetVSize s c sc p)
  with assms show ?thesis by simp
next
  case (SetDeviceRotation a)
  with assms show ?thesis
    by (auto simp: android_camera2_capture_set_device_rotation_def handles_null_def)
next
  case (OnImageAvailable p)
  with assms show ?thesis
    by (auto simp: android_camera2_capture_on_image_available_def split: if_splits)
next
  case (Start p)
  with assms show ?thesis by simp
next
  case (Stop c)
  with assms show ?thesis by (auto simp: android_camera2_capture_stop_def)
qed

lemma no_start_run:
  assumes "\<forall>x \<in> set ops. \<not> starts x" and "run ops (d, evs) = Inr (d', evs')"
    and "handles_null d" "\<not> capturing d" "width (captureSize d) = 0" "height (captureSize d) = 0"
  shows "handles_null d' \<and> \<not> capturing d'"
  using assms
proof (induction ops arbitrary: d evs)
  case Nil
  then show ?case by simp
next
  case (Cons x xs)
  from Cons.prems(2) obtain d1 e1 where
    s1: "step x d = Inr (d1, e1)" and rest: "run xs (d1, evs @ e1) = Inr (d', evs')"
    by (auto split: sum.splits)
  from Cons.prems(1) have nx: "\<not> starts x" and nxs: "\<forall>x \<in> set xs. \<not> starts x" by simp_all
  from no_start_step [OF nx s1 Cons.prems(3-6)]
  have "handles_null d1" "\<not> capturing d1" "width (captureSize d1) = 0" "height (captureSize d1) = 0"
    by simp_all
  from Cons.IH [OF nxs rest this] show ?case .
qed

text \<open>
  Claim C7 as the code has it. A stop that returns leaves a state in which a second stop
  changes nothing and only logs. If the first stop found the capture running, all eight
  handles are null after it; if it found the capture stopped, it changed nothing itself.
  From the constructor's state, through any operations none of which runs the start, the
  stop changes nothing and all eight handles are null.
\<close>

theorem stop_twice_or_premature:
  "(android_camera2_capture_stop c d = Inr (d', e) \<longrightarrow>
      android_camera2_capture_stop c' d' = Inr (d', already_stopped) \<and>
      (capturing d \<longrightarrow> handles_null d') \<and>
      (\<not> capturing d \<longrightarrow> d' = d \<and> e = already_stopped)) \<and>
   ((d0 = ctx_init f \<or> d0 = android_camera2_capture_create_reader f dev) \<and>
    (\<forall>x \<in> set ops. \<not> starts x) \<and> run ops (d0, []) = Inr (d1, evs) \<longrightarrow>
      android_camera2_capture_stop c d1 = Inr (d1, already_stopped) \<and> handles_null d1)"
proof (intro conjI impI)
  assume s: "android_camera2_capture_stop c d = Inr (d', e)"
  have n: "\<not> capturing d'"
  proof (cases "capturing d")
    case True
    from stop_result [OF True s] show ?thesis by simp
  next
    case False
    with s show ?thesis by (simp add: stop_when_stopped)
  qed
  from stop_when_stopped [OF n]
  show "android_camera2_capture_stop c' d' = Inr (d', already_stopped)" .
  show "handles_null d'" if "capturing d"
    using stop_result [OF that s] by simp
  show "d' = d" if "\<not> capturing d"
    using s stop_when_stopped [OF that, of c] by simp
  show "e = already_stopped" if "\<not> capturing d"
    using s stop_when_stopped [OF that, of c] by simp
next
  assume a: "(d0 = ctx_init f \<or> d0 = android_camera2_capture_create_reader f dev) \<and>
    (\<forall>x \<in> set ops. \<not> starts x) \<and> run ops (d0, []) = Inr (d1, evs)"
  then have i: "handles_null d0" "\<not> capturing d0" "width (captureSize d0) = 0"
      "height (captureSize d0) = 0"
    by (auto simp: ctx_init_def android_camera2_capture_create_reader_def handles_null_def)
  from a have ns: "\<forall>x \<in> set ops. \<not> starts x" and r: "run ops (d0, []) = Inr (d1, evs)"
    by simp_all
  from no_start_run [OF ns r i] have h: "handles_null d1" and n: "\<not> capturing d1" by simp_all
  from stop_when_stopped [OF n]
  show "android_camera2_capture_stop c d1 = Inr (d1, already_stopped)" .
  from h show "handles_null d1" .
qed


theorem stop_twice_or_premature_witness:
  "\<exists>d d' e d1 evs.
     capturing d \<and> android_camera2_capture_stop True d = Inr (d', e) \<and>
     android_camera2_capture_stop False d' = Inr (d', already_stopped) \<and> handles_null d' \<and>
     run [Preprocess platform_ok, Process sample_filter, Stop True]
       (android_camera2_capture_create_reader (Some sample_filter) sample_device, [])
       = Inr (d1, evs) \<and>
     android_camera2_capture_stop True d1 = Inr (d1, already_stopped) \<and> handles_null d1"
proof -
  define d where "d = fst (android_camera2_capture_start platform_ok
    ((android_camera2_capture_create_reader (Some sample_filter) sample_device)
       \<lparr>captureSize := vga\<rparr>))"
  have c: "capturing d"
    by (simp add: d_def eval_defs)
  obtain d' e where s: "android_camera2_capture_stop True d = Inr (d', e)"
    by (simp add: d_def eval_defs)
  obtain d1 evs where r:
    "run [Preprocess platform_ok, Process sample_filter, Stop True]
       (android_camera2_capture_create_reader (Some sample_filter) sample_device, [])
       = Inr (d1, evs)"
    by (simp add: eval_defs android_camera2_capture_preprocess_def
        android_camera2_capture_process_def)
  have n: "\<forall>x \<in> set [Preprocess platform_ok, Process sample_filter, Stop True]. \<not> starts x"
    by simp
  from stop_twice_or_premature
    [of True d d' e False _ "Some sample_filter" sample_device
        "[Preprocess platform_ok, Process sample_filter, Stop True]" d1 evs]
    c s r n
  show ?thesis by blast
qed

text \<open>
  The claim as it is written fails after a start that gave up: with the image reader
  refused by the platform, the start returns with the camera open and the output container
  created, and \<open>capturing\<close> false. Two stops in a row then change nothing, and the two
  handles stay set.
\<close>

theorem stop_twice_leaves_handles_counterexample:
  "map_sum id (handles_null \<circ> fst)
     (run [SetVSize vga True vga_only platform_reader_fails, Stop True, Stop True]
        (android_camera2_capture_create_reader (Some sample_filter) sample_device, []))
   = Inr False \<and>
   map_sum id (cameraDevice \<circ> fst)
     (run [SetVSize vga True vga_only platform_reader_fails, Stop True, Stop True]
        (android_camera2_capture_create_reader (Some sample_filter) sample_device, []))
   = Inr (Some 1) \<and>
   map_sum id (captureSessionOutputContainer \<circ> fst)
     (run [SetVSize vga True vga_only platform_reader_fails, Stop True, Stop True]
        (android_camera2_capture_create_reader (Some sample_filter) sample_device, []))
   = Inr (Some 2)"
  by (simp add: eval_defs handles_null_def)


section \<open>Setting the size that is already set\<close>

text \<open>
  Claim C8. In every state, \<open>android_camera2_capture_set_vsize\<close> with the size that is
  configured returns -1, leaves the context as it is and does nothing but log the two
  sizes: no stop, no start, no notification.
\<close>

theorem set_vsize_same_size:
  assumes "width (captureSize d) = width s" and "height (captureSize d) = height s"
  shows "android_camera2_capture_set_vsize s c scaler p d =
         Inr (-1, d, [Log Message ''Current preview size is %i/%i, new size will be %i/%i''])"
  using assms by (simp add: android_camera2_capture_set_vsize_def)

text \<open>
  On the filter that captures at 640 x 480, with its camera open and its image reader
  set, asking for 640 x 480 again.
\<close>

theorem set_vsize_same_size_witness:
  "capturing running_state \<and> captureSize running_state = vga \<and>
   cameraDevice running_state = Some 1 \<and> imageReader running_state = Some 3 \<and>
   captureRequest running_state = Some 6 \<and>
   android_camera2_capture_set_vsize vga True vga_only platform_ok running_state =
     Inr (-1, running_state,
          [Log Message ''Current preview size is %i/%i, new size will be %i/%i''])"
proof -
  have s: "capturing running_state" "captureSize running_state = vga"
    "cameraDevice running_state = Some 1" "imageReader running_state = Some 3"
    "captureRequest running_state = Some 6"
    by (simp_all add: running_state_def eval_defs)
  from s(2) have w: "width (captureSize running_state) = width vga"
    and h: "height (captureSize running_state) = height vga"
    by simp_all
  from set_vsize_same_size [OF w h, of True vga_only platform_ok] s show ?thesis
    by simp
qed

section \<open>The guard of the image callback\<close>

lemma filter_destroyed_guard_value:
  "filter_destroyed_guard d = (if filter_p d = None then Inl NullDeref else Inr False)"
  by (simp add: filter_destroyed_guard_def)

lemma image_to_mblkt_no_error:
  "android_camera2_capture_image_to_mblkt cv d img = Inr (m, e) \<Longrightarrow> filter_destroyed \<notin> set e"
  by (auto simp: android_camera2_capture_image_to_mblkt_def filter_destroyed_def Let_def
      split: sum.splits if_splits)

lemma frame_store_no_error: "filter_destroyed \<notin> set (snd (frame_store m d))"
  by (simp add: frame_store_def filter_destroyed_def split: option.split)

lemma on_image_never_filter_destroyed:
  assumes "android_camera2_capture_on_image_available p d = Inr (d', e)"
  shows "filter_destroyed \<notin> set e"
proof (cases "reader_format p = captureFormat d \<and> acquire_ok p \<and> capturing d")
  case False
  with assms show ?thesis
    by (auto simp: android_camera2_capture_on_image_available_def filter_destroyed_def
        split: if_splits)
next
  case True
  with assms obtain f t where f: "filter_p d = Some f" and t: "ticker f = Some t"
    by (auto simp: android_camera2_capture_on_image_available_def filter_destroyed_guard_def
        split: option.splits)
  show ?thesis
  proof (cases "new_frame p")
    case False
    with True f t assms show ?thesis
      by (auto simp: android_camera2_capture_on_image_available_def filter_destroyed_guard_def
          filter_destroyed_def)
  next
    case nf: True
    from True f t nf assms obtain m e1 where
      c: "android_camera2_capture_image_to_mblkt (converted p) d (next_image p) = Inr (m, e1)"
      by (auto simp: android_camera2_capture_on_image_available_def filter_destroyed_guard_def
          split: sum.splits)
    from image_to_mblkt_no_error [OF c] have e1: "filter_destroyed \<notin> set e1" .
    show ?thesis
    proof (cases m)
      case None
      with True f t nf c assms e1 show ?thesis
        by (auto simp: android_camera2_capture_on_image_available_def filter_destroyed_guard_def
            filter_destroyed_def)
    next
      case (Some b)
      with True f t nf c assms have
        "e = e1 @ snd (frame_store b d) @ [Call AImage_delete []]"
        by (auto simp: android_camera2_capture_on_image_available_def filter_destroyed_guard_def
            split_beta)
      with frame_store_no_error [of b d] e1 show ?thesis
        by (simp add: filter_destroyed_def)
    qed
  qed
qed

text \<open>
  Claim C9. The guard \<open>d->filter == nullptr && d->filter->ticker == nullptr\<close> is a null
  dereference when the filter is null and false when it is not; it is never true. No
  execution of the image callback that returns has logged the error of the guarded branch.
\<close>

theorem filter_destroyed_guard_unreachable:
  "filter_destroyed_guard d = (if filter_p d = None then Inl NullDeref else Inr False) \<and>
   filter_destroyed_guard d \<noteq> Inr True \<and>
   (\<forall>d' e. android_camera2_capture_on_image_available p d = Inr (d', e) \<longrightarrow>
            filter_destroyed \<notin> set e)"
  using on_image_never_filter_destroyed [of p d]
  by (simp add: filter_destroyed_guard_value)

theorem filter_destroyed_guard_unreachable_witness:
  "\<exists>d' e. android_camera2_capture_on_image_available sample_image running_state = Inr (d', e) \<and>
     frame d' = Some 11 \<and> filter_destroyed \<notin> set e \<and>
     filter_destroyed_guard running_state = Inr False \<and>
     filter_destroyed_guard (running_state\<lparr>filter_p := None\<rparr>) = Inl NullDeref"
proof -
  obtain d' e where
    r: "android_camera2_capture_on_image_available sample_image running_state = Inr (d', e)"
    and f: "frame d' = Some 11"
    by (simp add: eval_image_defs eval_defs)
  have g: "filter_p running_state \<noteq> None" "filter_p (running_state\<lparr>filter_p := None\<rparr>) = None"
    by (simp_all add: running_state_def eval_defs)
  from filter_destroyed_guard_unreachable [of running_state sample_image]
    filter_destroyed_guard_unreachable [of "running_state\<lparr>filter_p := None\<rparr>" sample_image]
    r f g
  show ?thesis by auto
qed


section \<open>Setting a size when no configuration has the capture format\<close>

text \<open>
  Claim C10. On a filter with its device bound, when the size asked differs from the one
  configured and the platform lists no output configuration in the capture format:
  the stop and the choice of a configuration return, the size configured becomes (0, 0),
  the start that follows returns at its guard on a zero size with the context untouched,
  \<open>capturing\<close> is false, and \<open>android_camera2_capture_set_vsize\<close> returns 0 after
  notifying the host of the size (0, 0) as its last event.
\<close>

theorem set_vsize_without_candidates:
  assumes "device d = Some dev"
    and "width (captureSize d) \<noteq> width s \<or> height (captureSize d) \<noteq> height s"
    and "\<forall>c \<in> set scaler. \<not> (cfg_input c = 0 \<and> cfg_format c = captureFormat d)"
  shows "\<exists>d2 e2 d3 e3.
           android_camera2_capture_stop close_ok (d\<lparr>captureSize := s\<rparr>) = Inr (d2, e2) \<and>
           android_camera2_capture_choose_best_configurations scaler d2 = Inr (d3, e3) \<and>
           captureSize d3 = \<lparr> width = 0, height = 0 \<rparr> \<and>
           \<not> capturing d3 \<and>
           android_camera2_capture_start p d3 = (d3, unconfigured) \<and>
           android_camera2_capture_set_vsize s close_ok scaler p d =
             Inr (0, d3,
                  [Log Message ''Current preview size is %i/%i, new size will be %i/%i'']
                  @ e2 @ e3 @ unconfigured @ [Notify \<lparr> width = 0, height = 0 \<rparr>])"
proof -
  from assms(1) have "device (d\<lparr>captureSize := s\<rparr>) = Some dev" by simp
  from stop_total [OF this, of close_ok] obtain d2 e2 where
    s2: "android_camera2_capture_stop close_ok (d\<lparr>captureSize := s\<rparr>) = Inr (d2, e2)"
    and d2: "device d2 = Some dev" "captureFormat d2 = captureFormat d" "\<not> capturing d2"
    by auto
  from assms(3) d2(2)
  have "\<forall>c \<in> set scaler. \<not> (cfg_input c = 0 \<and> cfg_format c = captureFormat d2)" by simp
  from foldl_no_candidate [OF this]
  have f: "foldl (configuration_step d2) (\<lparr> width = 0, height = 0 \<rparr>, False) scaler
           = (\<lparr> width = 0, height = 0 \<rparr>, False)" .
  obtain d3 e3 where
    s3: "android_camera2_capture_choose_best_configurations scaler d2 = Inr (d3, e3)"
    and d3: "captureSize d3 = \<lparr> width = 0, height = 0 \<rparr>" "\<not> capturing d3"
    using d2 f by (simp add: android_camera2_capture_choose_best_configurations_def)
  from d3 have s4: "android_camera2_capture_start p d3 = (d3, unconfigured)"
    by (simp add: start_guards)
  from assms(2) s2 s3 s4 d3 have
    "android_camera2_capture_set_vsize s close_ok scaler p d =
             Inr (0, d3,
                  [Log Message ''Current preview size is %i/%i, new size will be %i/%i'']
                  @ e2 @ e3 @ unconfigured @ [Notify \<lparr> width = 0, height = 0 \<rparr>])"
    by (auto simp: android_camera2_capture_set_vsize_def)
  with s2 s3 s4 d3 show ?thesis by blast
qed


theorem set_vsize_without_candidates_witness:
  "device (android_camera2_capture_create_reader (Some sample_filter) sample_device)
     = Some sample_device \<and>
   captureSize (android_camera2_capture_create_reader (Some sample_filter) sample_device)
     \<noteq> vga \<and>
   filter (is_candidate
             (android_camera2_capture_create_reader (Some sample_filter) sample_device))
     other_formats = [] \<and>
   (\<exists>d3 e.
      android_camera2_capture_set_vsize vga True other_formats platform_ok
        (android_camera2_capture_create_reader (Some sample_filter) sample_device)
        = Inr (0, d3, e @ unconfigured @ [Notify \<lparr> width = 0, height = 0 \<rparr>]) \<and>
      captureSize d3 = \<lparr> width = 0, height = 0 \<rparr> \<and> \<not> capturing d3)"
proof -
  let ?d = "android_camera2_capture_create_reader (Some sample_filter) sample_device"
  have h1: "device ?d = Some sample_device"
    by (simp add: android_camera2_capture_create_reader_def)
  have h2: "width (captureSize ?d) \<noteq> width vga \<or> height (captureSize ?d) \<noteq> height vga"
    by (simp add: android_camera2_capture_create_reader_def ctx_init_def vga_def)
  have h3: "\<forall>c \<in> set other_formats. \<not> (cfg_input c = 0 \<and> cfg_format c = captureFormat ?d)"
    by (simp add: android_camera2_capture_create_reader_def ctx_init_def other_formats_def
        AIMAGE_FORMAT_YUV_420_888_def)
  from h2 have n: "captureSize ?d \<noteq> vga" by auto
  from h3 have f: "filter (is_candidate ?d) other_formats = []"
    by (simp add: is_candidate_def filter_empty_conv)
  from set_vsize_without_candidates [OF h1 h2 h3, of True platform_ok] obtain d2 e2 d3 e3 where
    "android_camera2_capture_stop True (?d\<lparr>captureSize := vga\<rparr>) = Inr (d2, e2)" and
    "android_camera2_capture_set_vsize vga True other_formats platform_ok ?d =
       Inr (0, d3,
            [Log Message ''Current preview size is %i/%i, new size will be %i/%i'']
            @ e2 @ e3 @ unconfigured @ [Notify \<lparr> width = 0, height = 0 \<rparr>])"
    and "captureSize d3 = \<lparr> width = 0, height = 0 \<rparr>" and "\<not> capturing d3"
    by blast
  then have "\<exists>d3 e.
      android_camera2_capture_set_vsize vga True other_formats platform_ok ?d
        = Inr (0, d3, e @ unconfigured @ [Notify \<lparr> width = 0, height = 0 \<rparr>]) \<and>
      captureSize d3 = \<lparr> width = 0, height = 0 \<rparr> \<and> \<not> capturing d3"
    by (intro exI [of _ d3]
        exI [of _ "[Log Message ''Current preview size is %i/%i, new size will be %i/%i''] @ e2 @ e3"])
       simp
  with h1 n f show ?thesis by blast
qed

end
